theory Spec2Isabelle
  imports Main "HOL-Library.List_Lexorder" "HOL-Library.Char_ord"
begin

section \<open>Python values and exceptions\<close>

text \<open>
  \<^verbatim>\<open>phone_format.py\<close> is a batch script: it harvests one dict per region from the
  phonenumbers library, adds derived fields, merges columns of a fetched JSON table,
  sorts the table and dumps it. The exceptions that can be raised along the way are
  values of \<open>error\<close>; a computation that may raise returns \<open>error + 'a\<close>.
\<close>

datatype error =
    ConnectionError
  | HTTPError
  | JSONDecodeError
  | AttributeError
  | TypeError
  | KeyError
  | IndexError
  | ValueError
  | LibraryError string

text \<open>
  The values that \<^verbatim>\<open>json\<close> decodes and that the dicts of the table hold. A \<open>string\<close> is
  read as a sequence of code points, one \<open>char\<close> each, so \<open>length\<close> is Python's
  \<^verbatim>\<open>len\<close> and the order of \<open>List_Lexorder\<close> is Python's comparison of \<^verbatim>\<open>str\<close>.
  A dict is an association list in insertion order. JSON floats are left out: the
  script never computes with a fetched number.
\<close>

datatype pyval =
    PNone
  | PBool bool
  | PInt int
  | PStr string
  | PList "pyval list"
  | PDict "(string \<times> pyval) list"

type_synonym pydict = "(string \<times> pyval) list"

text \<open>The table \<^verbatim>\<open>phone_format_data\<close>: region code to record dict, in insertion order.\<close>

type_synonym table = "(string \<times> pydict) list"

subsection \<open>Dict operations\<close>

text \<open>\<^verbatim>\<open>d[k] = v\<close>: an existing key keeps its position, a new key goes last.\<close>

fun dict_set :: "'k \<Rightarrow> 'v \<Rightarrow> ('k \<times> 'v) list \<Rightarrow> ('k \<times> 'v) list" where
  "dict_set k v [] = [(k, v)]"
| "dict_set k v ((k', v') # kvs) =
     (if k' = k then (k', v) # kvs else (k', v') # dict_set k v kvs)"

text \<open>\<^verbatim>\<open>d[k]\<close>, raising \<^verbatim>\<open>KeyError\<close> on a missing key.\<close>

definition dict_get :: "('k \<times> 'v) list \<Rightarrow> 'k \<Rightarrow> error + 'v" where
  "dict_get d k = (case map_of d k of None \<Rightarrow> Inl KeyError | Some v \<Rightarrow> Inr v)"

text \<open>\<^verbatim>\<open>t[k][f] = v\<close>: the dict stored under \<open>k\<close> is changed in place.\<close>

fun item_set :: "string \<Rightarrow> string \<Rightarrow> pyval \<Rightarrow> table \<Rightarrow> error + table" where
  "item_set k f v [] = Inl KeyError"
| "item_set k f v ((k', d) # t) =
     (if k' = k then Inr ((k', dict_set f v d) # t)
      else (case item_set k f v t of Inl e \<Rightarrow> Inl e | Inr t' \<Rightarrow> Inr ((k', d) # t')))"

subsection \<open>\<^verbatim>\<open>str\<close> of an int, \<^verbatim>\<open>int\<close> of a str\<close>

definition digit_char :: "nat \<Rightarrow> char" where
  "digit_char d = char_of (48 + d)"

fun str_nat :: "nat \<Rightarrow> string" where
  "str_nat n = (if n < 10 then [digit_char n] else str_nat (n div 10) @ [digit_char (n mod 10)])"

declare str_nat.simps [simp del]

text \<open>\<^verbatim>\<open>str(i)\<close> and the \<^verbatim>\<open>{i}\<close> of an f-string, for an int \<open>i\<close>.\<close>

definition str_int :: "int \<Rightarrow> string" where
  "str_int i = (if i < 0 then CHR ''-'' # str_nat (nat (- i)) else str_nat (nat i))"

definition is_digit :: "char \<Rightarrow> bool" where
  "is_digit c = (48 \<le> (of_char c :: nat) \<and> (of_char c :: nat) \<le> 57)"

definition digit_val :: "char \<Rightarrow> nat" where
  "digit_val c = of_char c - 48"

definition is_space :: "char \<Rightarrow> bool" where
  "is_space c = (let n = (of_char c :: nat) in (9 \<le> n \<and> n \<le> 13) \<or> (28 \<le> n \<and> n \<le> 32))"

definition py_strip :: "string \<Rightarrow> string" where
  "py_strip s = rev (dropWhile is_space (rev (dropWhile is_space s)))"

text \<open>
  The digits after the first one: a digit, or one underscore followed by a digit.
\<close>

fun more_digits :: "nat \<Rightarrow> string \<Rightarrow> nat option" where
  "more_digits acc [] = Some acc"
| "more_digits acc [c] = (if is_digit c then Some (10 * acc + digit_val c) else None)"
| "more_digits acc (c # d # cs) =
     (if is_digit c then more_digits (10 * acc + digit_val c) (d # cs)
      else if c = CHR ''_'' \<and> is_digit d then more_digits (10 * acc + digit_val d) cs
      else None)"

definition parse_nat :: "string \<Rightarrow> nat option" where
  "parse_nat s =
     (case s of [] \<Rightarrow> None
      | c # cs \<Rightarrow> if is_digit c then more_digits (digit_val c) cs else None)"

text \<open>
  \<^verbatim>\<open>int(s)\<close> for a str \<open>s\<close> in base 10: surrounding whitespace, an optional sign,
  digits with single underscores between them; \<^verbatim>\<open>ValueError\<close> otherwise.
\<close>

definition py_int :: "string \<Rightarrow> error + int" where
  "py_int s =
     (case py_strip s of
        [] \<Rightarrow> Inl ValueError
      | c # cs \<Rightarrow>
          (if c = CHR ''-'' then
             (case parse_nat cs of None \<Rightarrow> Inl ValueError | Some n \<Rightarrow> Inr (- int n))
           else if c = CHR ''+'' then
             (case parse_nat cs of None \<Rightarrow> Inl ValueError | Some n \<Rightarrow> Inr (int n))
           else
             (case parse_nat (c # cs) of None \<Rightarrow> Inl ValueError | Some n \<Rightarrow> Inr (int n))))"

text \<open>\<^verbatim>\<open>s * n\<close> for a str \<open>s\<close> of one character: empty when \<open>n\<close> is not positive.\<close>

definition str_mul :: "char \<Rightarrow> int \<Rightarrow> string" where
  "str_mul c n = replicate (nat n) c"

text \<open>\<^verbatim>\<open>max(xs)\<close>, raising \<^verbatim>\<open>ValueError\<close> on an empty sequence.\<close>

definition py_max :: "int list \<Rightarrow> error + int" where
  "py_max xs = (case xs of [] \<Rightarrow> Inl ValueError | x # r \<Rightarrow> Inr (fold max r x))"

section \<open>The metadata harvester\<close>

text \<open>
  What the script reads of the phonenumbers library: the description's
  \<^verbatim>\<open>possible_length\<close> (a tuple of ints, empty when there is none) and the metadata's
  \<^verbatim>\<open>country_code\<close> and \<^verbatim>\<open>general_desc\<close> (which may be \<^verbatim>\<open>None\<close>).
\<close>

record phone_number_desc =
  possible_length :: "int list"

record phone_metadata =
  country_code :: int
  general_desc :: "phone_number_desc option"

text \<open>
  \<^verbatim>\<open>PhoneMetadata.metadata_for_region(region, None)\<close>: the metadata, \<^verbatim>\<open>None\<close>, or an
  exception.
\<close>

type_synonym metadata_source = "string \<Rightarrow> error + phone_metadata option"

text \<open>Lines 31 to 37: the example format of a calling code and a maximal length.\<close>

definition example_format_of :: "string \<Rightarrow> int \<Rightarrow> string" where
  "example_format_of cc max_length =
     (''+'' @ cc @ '' '') @
     (if max_length \<le> 4 then str_mul CHR ''X'' max_length
      else if max_length \<le> 7 then ''XXX '' @ str_mul CHR ''X'' (max_length - 3)
      else ''XXX XXX '' @ str_mul CHR ''X'' (max_length - 6))"

text \<open>
  The body of the loop at lines 17 to 46, for one region. An exception raised inside the
  \<^verbatim>\<open>try\<close> is printed and the table is left as it was.
\<close>

definition harvest_region :: "metadata_source \<Rightarrow> string \<Rightarrow> table \<Rightarrow> table" where
  "harvest_region metadata_for_region region phone_format_data =
     (case metadata_for_region region of
        Inl e \<Rightarrow> phone_format_data
      | Inr None \<Rightarrow> phone_format_data
      | Inr (Some metadata) \<Rightarrow>
          (case general_desc metadata of
             None \<Rightarrow> phone_format_data
           | Some desc \<Rightarrow>
               if possible_length desc = [] then phone_format_data
               else
                 (let cc = str_int (country_code metadata) in
                  case py_max (possible_length desc) of
                    Inl e \<Rightarrow> phone_format_data
                  | Inr max_length \<Rightarrow>
                      dict_set region
                        [(''country_code'', PStr cc),
                         (''max_length'', PInt max_length),
                         (''example_format'', PStr (example_format_of cc max_length))]
                        phone_format_data)))"

definition get_up_to_date_phone_formats :: "metadata_source \<Rightarrow> string list \<Rightarrow> table" where
  "get_up_to_date_phone_formats metadata_for_region regions =
     fold (harvest_region metadata_for_region) regions []"


section \<open>The derived fields\<close>

text \<open>
  \<^verbatim>\<open>d[k]\<close> for a field that holds a str, and for one that holds an int. The two fields
  read back below were stored by the harvester with these types and nothing reassigns
  them; on a dict of any other shape the accessors answer \<^verbatim>\<open>TypeError\<close>.
\<close>

definition get_str :: "pydict \<Rightarrow> string \<Rightarrow> error + string" where
  "get_str d k =
     (case dict_get d k of Inl e \<Rightarrow> Inl e | Inr (PStr s) \<Rightarrow> Inr s | Inr _ \<Rightarrow> Inl TypeError)"

definition get_int :: "pydict \<Rightarrow> string \<Rightarrow> error + int" where
  "get_int d k =
     (case dict_get d k of Inl e \<Rightarrow> Inl e | Inr (PInt i) \<Rightarrow> Inr i | Inr _ \<Rightarrow> Inl TypeError)"

definition backslash :: char where
  "backslash = CHR 0x5C"

text \<open>Line 70: the f-string \<^verbatim>\<open>f"^\\+{country_code}\\d{{{max_length}}}$"\<close>.\<close>

definition regex_of :: "string \<Rightarrow> int \<Rightarrow> string" where
  "regex_of cc max_length =
     ''^'' @ [backslash] @ ''+'' @ cc @ [backslash] @ ''d{'' @ str_int max_length @ ''}$''"

text \<open>The body of the loop at lines 62 to 70; \<open>key\<close> is the loop's \<^verbatim>\<open>country_code\<close>.\<close>

definition add_fields :: "string \<Rightarrow> pydict \<Rightarrow> error + pydict" where
  "add_fields key data =
     (let data1 = dict_set ''ISO'' (PStr key) data in
      case get_str data1 ''country_code'' of
        Inl e \<Rightarrow> Inl e
      | Inr cc \<Rightarrow>
          (case get_int data1 ''max_length'' of
             Inl e \<Rightarrow> Inl e
           | Inr max_length \<Rightarrow>
               (let data2 = dict_set ''total_max_digits'' (PInt (int (length cc) + max_length)) data1
                in case get_str data2 ''country_code'' of
                     Inl e \<Rightarrow> Inl e
                   | Inr cc' \<Rightarrow>
                       (case get_int data2 ''max_length'' of
                          Inl e \<Rightarrow> Inl e
                        | Inr max_length' \<Rightarrow>
                            Inr (dict_set ''regex'' (PStr (regex_of cc' max_length')) data2)))))"

fun add_information :: "table \<Rightarrow> error + table" where
  "add_information [] = Inr []"
| "add_information ((key, data) # rest) =
     (case add_fields key data of
        Inl e \<Rightarrow> Inl e
      | Inr data' \<Rightarrow>
          (case add_information rest of
             Inl e \<Rightarrow> Inl e
           | Inr rest' \<Rightarrow> Inr ((key, data') # rest')))"

section \<open>The enrichment stage\<close>

text \<open>
  What the script uses of a \<^verbatim>\<open>requests\<close> response: the status that
  \<^verbatim>\<open>raise_for_status\<close> tests and the result of \<^verbatim>\<open>json()\<close>.
\<close>

record response =
  status_code :: int
  json_result :: "error + pyval"

definition gc_url :: string where
  "gc_url = ''https://open.canada.ca/data/en/datastore/dump/bdb33e8c-53ef-4bae-9493-35f343191c02?format=json''"

text \<open>Lines 76 to 79: the request, \<^verbatim>\<open>raise_for_status\<close> (a 4xx or 5xx status raises), the body.\<close>

definition fetch_gc_data :: "(error + response) \<Rightarrow> error + pyval" where
  "fetch_gc_data got =
     (case got of
        Inl e \<Rightarrow> Inl e
      | Inr resp \<Rightarrow>
          if 400 \<le> status_code resp \<and> status_code resp < 600 then Inl HTTPError
          else json_result resp)"

text \<open>\<^verbatim>\<open>x.get(k, default)\<close>: only a dict has the method.\<close>

fun py_get :: "pyval \<Rightarrow> string \<Rightarrow> pyval \<Rightarrow> error + pyval" where
  "py_get (PDict kvs) k dflt = Inr (case map_of kvs k of None \<Rightarrow> dflt | Some v \<Rightarrow> v)"
| "py_get _ k dflt = Inl AttributeError"

text \<open>The items a \<^verbatim>\<open>for\<close> loop draws from a value: a dict yields its keys, a str its characters.\<close>

fun py_iter :: "pyval \<Rightarrow> error + pyval list" where
  "py_iter (PList xs) = Inr xs"
| "py_iter (PStr s) = Inr (map (\<lambda>c. PStr [c]) s)"
| "py_iter (PDict kvs) = Inr (map (\<lambda>kv. PStr (fst kv)) kvs)"
| "py_iter _ = Inl TypeError"

fun py_truthy :: "pyval \<Rightarrow> bool" where
  "py_truthy PNone = False"
| "py_truthy (PBool b) = b"
| "py_truthy (PInt i) = (i \<noteq> 0)"
| "py_truthy (PStr s) = (s \<noteq> [])"
| "py_truthy (PList xs) = (xs \<noteq> [])"
| "py_truthy (PDict kvs) = (kvs \<noteq> [])"

fun py_len :: "pyval \<Rightarrow> error + nat" where
  "py_len (PStr s) = Inr (length s)"
| "py_len (PList xs) = Inr (length xs)"
| "py_len (PDict kvs) = Inr (length kvs)"
| "py_len _ = Inl TypeError"

text \<open>
  \<^verbatim>\<open>x[i]\<close> for an index \<open>i\<close> that is not negative. A decoded JSON object has str keys
  only, so an int subscript raises \<^verbatim>\<open>KeyError\<close>.
\<close>

fun py_getitem :: "pyval \<Rightarrow> nat \<Rightarrow> error + pyval" where
  "py_getitem (PList xs) i = (if i < length xs then Inr (xs ! i) else Inl IndexError)"
| "py_getitem (PStr s) i = (if i < length s then Inr (PStr [s ! i]) else Inl IndexError)"
| "py_getitem (PDict kvs) i = Inl KeyError"
| "py_getitem _ i = Inl TypeError"

record field_indices =
  iso_alpha_2_index :: "nat option"
  gc_id_index :: "nat option"
  gc_nm_ab_en_index :: "nat option"
  gc_nm_ab_fr_index :: "nat option"

definition no_indices :: field_indices where
  "no_indices = \<lparr>iso_alpha_2_index = None, gc_id_index = None,
                  gc_nm_ab_en_index = None, gc_nm_ab_fr_index = None\<rparr>"

text \<open>Lines 89 to 97: the scan of \<^verbatim>\<open>enumerate(fields)\<close>, from position \<open>i\<close> on.\<close>

fun scan_fields :: "nat \<Rightarrow> pyval list \<Rightarrow> field_indices \<Rightarrow> error + field_indices" where
  "scan_fields i [] idx = Inr idx"
| "scan_fields i (field # rest) idx =
     (case py_get field ''id'' PNone of
        Inl e \<Rightarrow> Inl e
      | Inr v \<Rightarrow>
          scan_fields (Suc i) rest
            (if v = PStr ''ISO_ALPHA_2_CD'' then idx\<lparr>iso_alpha_2_index := Some i\<rparr>
             else if v = PStr ''GC_ID'' then idx\<lparr>gc_id_index := Some i\<rparr>
             else if v = PStr ''GC_NM_AB_EN'' then idx\<lparr>gc_nm_ab_en_index := Some i\<rparr>
             else if v = PStr ''GC_NM_AB_FR'' then idx\<lparr>gc_nm_ab_fr_index := Some i\<rparr>
             else idx))"

text \<open>Lines 106 to 116: the positions assumed when the ISO column was not found by id.\<close>

definition fallback_indices :: "field_indices \<Rightarrow> pyval \<Rightarrow> field_indices" where
  "fallback_indices idx records =
     (if iso_alpha_2_index idx = None \<and> py_truthy records then
        \<lparr>iso_alpha_2_index = Some 19, gc_id_index = Some 0,
         gc_nm_ab_en_index = Some 4, gc_nm_ab_fr_index = Some 5\<rparr>
      else idx)"


text \<open>
  \<^verbatim>\<open>iso_code in phone_format_data\<close>: a list or a dict cannot be hashed; of the other
  values only a str can equal a key of the table.
\<close>

fun py_in_table :: "pyval \<Rightarrow> table \<Rightarrow> error + bool" where
  "py_in_table (PStr k) t = Inr (k \<in> set (map fst t))"
| "py_in_table (PList xs) t = Inl TypeError"
| "py_in_table (PDict kvs) t = Inl TypeError"
| "py_in_table _ t = Inr False"

text \<open>\<^verbatim>\<open>phone_format_data[iso_code][f] = v\<close> for a decoded value \<open>iso_code\<close>.\<close>

fun table_item_set :: "pyval \<Rightarrow> string \<Rightarrow> pyval \<Rightarrow> table \<Rightarrow> error + table" where
  "table_item_set (PStr k) f v t = item_set k f v t"
| "table_item_set (PList xs) f v t = Inl TypeError"
| "table_item_set (PDict kvs) f v t = Inl TypeError"
| "table_item_set _ f v t = Inl KeyError"

text \<open>One of the assignments of lines 124 to 126: the right-hand side is read first.\<close>

definition assign_column :: "pyval \<Rightarrow> string \<Rightarrow> pyval \<Rightarrow> nat \<Rightarrow> table \<Rightarrow> error + table" where
  "assign_column iso_code f row i t =
     (case py_getitem row i of
        Inl e \<Rightarrow> Inl e
      | Inr v \<Rightarrow> table_item_set iso_code f v t)"

text \<open>
  The body of the loop at lines 119 to 127 for one fetched record \<open>row\<close>. The table is
  changed in place, so an exception leaves the assignments made before it: the result is
  the exception, if any, and the table as it then is.
\<close>

definition merge_record ::
  "nat \<Rightarrow> nat \<Rightarrow> nat \<Rightarrow> nat \<Rightarrow> pyval \<Rightarrow> table \<Rightarrow> error option \<times> table" where
  "merge_record iso_i id_i en_i fr_i row t =
     (case py_len row of
        Inl e \<Rightarrow> (Some e, t)
      | Inr n \<Rightarrow>
          if \<not> max (max iso_i id_i) (max en_i fr_i) < n then (None, t)
          else
            (case py_getitem row iso_i of
               Inl e \<Rightarrow> (Some e, t)
             | Inr iso_code \<Rightarrow>
                 (case (if py_truthy iso_code then py_in_table iso_code t else Inr False) of
                    Inl e \<Rightarrow> (Some e, t)
                  | Inr found \<Rightarrow>
                      if \<not> found then (None, t)
                      else
                        (case assign_column iso_code ''GC_ID'' row id_i t of
                           Inl e \<Rightarrow> (Some e, t)
                         | Inr t1 \<Rightarrow>
                             (case assign_column iso_code ''GC_NM_AB_EN'' row en_i t1 of
                                Inl e \<Rightarrow> (Some e, t1)
                              | Inr t2 \<Rightarrow>
                                  (case assign_column iso_code ''GC_NM_AB_FR'' row fr_i t2 of
                                     Inl e \<Rightarrow> (Some e, t2)
                                   | Inr t3 \<Rightarrow> (None, t3)))))))"

fun merge_records ::
  "nat \<Rightarrow> nat \<Rightarrow> nat \<Rightarrow> nat \<Rightarrow> pyval list \<Rightarrow> table \<Rightarrow> error option \<times> table" where
  "merge_records iso_i id_i en_i fr_i [] t = (None, t)"
| "merge_records iso_i id_i en_i fr_i (row # rows) t =
     (case merge_record iso_i id_i en_i fr_i row t of
        (Some e, t') \<Rightarrow> (Some e, t')
      | (None, t') \<Rightarrow> merge_records iso_i id_i en_i fr_i rows t')"

text \<open>Lines 83 to 97: the positions of the four columns, found by id.\<close>

definition find_indices :: "pyval \<Rightarrow> error + field_indices" where
  "find_indices gc_data =
     (case py_get gc_data ''fields'' (PList []) of
        Inl e \<Rightarrow> Inl e
      | Inr field_list \<Rightarrow>
          (case py_iter field_list of
             Inl e \<Rightarrow> Inl e
           | Inr fs \<Rightarrow> scan_fields 0 fs no_indices))"

text \<open>Lines 83 to 116: the positions the merge will use, and the fetched records.\<close>

definition resolve_indices :: "pyval \<Rightarrow> error + field_indices \<times> pyval" where
  "resolve_indices gc_data =
     (case find_indices gc_data of
        Inl e \<Rightarrow> Inl e
      | Inr idx \<Rightarrow>
          (case py_get gc_data ''records'' (PList []) of
             Inl e \<Rightarrow> Inl e
           | Inr records \<Rightarrow> Inr (fallback_indices idx records, records)))"

text \<open>Lines 118 to 127: the merge, when all four positions are known.\<close>

definition merge_with :: "field_indices \<Rightarrow> pyval \<Rightarrow> table \<Rightarrow> error option \<times> table" where
  "merge_with idx records t =
     (case (iso_alpha_2_index idx, gc_id_index idx, gc_nm_ab_en_index idx, gc_nm_ab_fr_index idx) of
        (Some iso_i, Some id_i, Some en_i, Some fr_i) \<Rightarrow>
          (case py_iter records of
             Inl e \<Rightarrow> (Some e, t)
           | Inr rows \<Rightarrow> merge_records iso_i id_i en_i fr_i rows t)
      | _ \<Rightarrow> (None, t))"

text \<open>
  The \<^verbatim>\<open>try\<close> of lines 73 to 134. Its handler prints the exception and goes on with the
  table as it is: the result is the exception caught, if any, and that table.
\<close>

definition enrich :: "(error + response) \<Rightarrow> table \<Rightarrow> error option \<times> table" where
  "enrich got t =
     (case fetch_gc_data got of
        Inl e \<Rightarrow> (Some e, t)
      | Inr gc_data \<Rightarrow>
          (case resolve_indices gc_data of
             Inl e \<Rightarrow> (Some e, t)
           | Inr (idx, records) \<Rightarrow> merge_with idx records t))"

section \<open>The sort\<close>

text \<open>The body of the grouping loop at lines 145 to 149.\<close>

definition group_entry ::
  "string \<times> pydict \<Rightarrow> (string \<times> (string \<times> pydict) list) list
     \<Rightarrow> error + (string \<times> (string \<times> pydict) list) list" where
  "group_entry entry country_code_groups =
     (case get_str (snd entry) ''country_code'' of
        Inl e \<Rightarrow> Inl e
      | Inr cc \<Rightarrow>
          (let groups1 =
                 (if cc \<notin> set (map fst country_code_groups)
                  then dict_set cc [] country_code_groups else country_code_groups)
           in case dict_get groups1 cc of
                Inl e \<Rightarrow> Inl e
              | Inr entries \<Rightarrow> Inr (dict_set cc (entries @ [entry]) groups1)))"

fun group_entries ::
  "table \<Rightarrow> (string \<times> (string \<times> pydict) list) list
     \<Rightarrow> error + (string \<times> (string \<times> pydict) list) list" where
  "group_entries [] groups = Inr groups"
| "group_entries (entry # rest) groups =
     (case group_entry entry groups of
        Inl e \<Rightarrow> Inl e
      | Inr groups' \<Rightarrow> group_entries rest groups')"

text \<open>The keys \<^verbatim>\<open>int(k)\<close> that \<^verbatim>\<open>sorted(..., key=int)\<close> computes, each with its element.\<close>

fun int_keys :: "string list \<Rightarrow> error + (int \<times> string) list" where
  "int_keys [] = Inr []"
| "int_keys (k # ks) =
     (case py_int k of
        Inl e \<Rightarrow> Inl e
      | Inr n \<Rightarrow> (case int_keys ks of Inl e \<Rightarrow> Inl e | Inr nks \<Rightarrow> Inr ((n, k) # nks)))"

text \<open>\<^verbatim>\<open>sorted(ks, key=int)\<close>; Python's sort is stable, as \<open>sort_key\<close> is.\<close>

definition sorted_by_int :: "string list \<Rightarrow> error + string list" where
  "sorted_by_int ks =
     (case int_keys ks of Inl e \<Rightarrow> Inl e | Inr nks \<Rightarrow> Inr (map snd (sort_key fst nks)))"

text \<open>Lines 152 to 155: the groups in the order of \<open>ccs\<close>, each sorted by ISO code.\<close>

fun emit_groups ::
  "string list \<Rightarrow> (string \<times> (string \<times> pydict) list) list \<Rightarrow> table \<Rightarrow> error + table" where
  "emit_groups [] groups sorted_phone_format_data = Inr sorted_phone_format_data"
| "emit_groups (cc # ccs) groups sorted_phone_format_data =
     (case dict_get groups cc of
        Inl e \<Rightarrow> Inl e
      | Inr entries \<Rightarrow>
          emit_groups ccs groups
            (fold (\<lambda>entry. dict_set (fst entry) (snd entry)) (sort_key fst entries)
               sorted_phone_format_data))"

text \<open>Lines 142 to 155.\<close>

definition sort_table :: "table \<Rightarrow> error + table" where
  "sort_table phone_format_data =
     (case group_entries phone_format_data [] of
        Inl e \<Rightarrow> Inl e
      | Inr country_code_groups \<Rightarrow>
          (case sorted_by_int (map fst country_code_groups) of
             Inl e \<Rightarrow> Inl e
           | Inr ccs \<Rightarrow> emit_groups ccs country_code_groups []))"

section \<open>The script\<close>

text \<open>
  What the run depends on: the library's \<^verbatim>\<open>SUPPORTED_REGIONS\<close> in the order the loop
  draws them, its metadata, and what \<^verbatim>\<open>requests.get\<close> gives for a URL.
\<close>

record environment =
  supported_regions :: "string list"
  metadata_for_region :: metadata_source
  http_get :: "string \<Rightarrow> error + response"

text \<open>The table after lines 55 to 70, before the enrichment.\<close>

definition harvested :: "environment \<Rightarrow> error + table" where
  "harvested env =
     add_information
       (get_up_to_date_phone_formats (metadata_for_region env) (supported_regions env))"

text \<open>
  The run: the file name and the mapping handed to \<^verbatim>\<open>json.dump\<close>, or the exception that
  ends the script. Opening and writing the file are taken to succeed. The prints are left
  out, and so is the handler of lines 56 to 59: line 3 has imported the library already,
  so the import of line 54 cannot raise.
\<close>

definition main :: "environment \<Rightarrow> error + string \<times> table" where
  "main env =
     (case harvested env of
        Inl e \<Rightarrow> Inl e
      | Inr phone_format_data \<Rightarrow>
          (case sort_table (snd (enrich (http_get env gc_url) phone_format_data)) of
             Inl e \<Rightarrow> Inl e
           | Inr sorted_phone_format_data \<Rightarrow>
               Inr (''phone_formats_e164.json'', sorted_phone_format_data)))"


section \<open>Notions used in the statements and proofs\<close>

text \<open>The dict literal of lines 40 to 44, for a calling code \<open>n\<close> and a maximal length.\<close>

definition region_fields :: "int \<Rightarrow> int \<Rightarrow> pydict" where
  "region_fields n max_length =
     [(''country_code'', PStr (str_int n)),
      (''max_length'', PInt max_length),
      (''example_format'', PStr (example_format_of (str_int n) max_length))]"

text \<open>What the harvester's loop body stores for a region, if it stores anything.\<close>

definition stored_fields :: "metadata_source \<Rightarrow> string \<Rightarrow> pydict option" where
  "stored_fields mfr r =
     (case mfr r of
        Inr (Some m) \<Rightarrow>
          (case general_desc m of
             Some d \<Rightarrow>
               if possible_length d = [] then None
               else Some (region_fields (country_code m) (Max (set (possible_length d))))
           | None \<Rightarrow> None)
      | _ \<Rightarrow> None)"

text \<open>A record after lines 62 to 70, for the key \<open>k\<close>.\<close>

definition full_fields :: "string \<Rightarrow> int \<Rightarrow> int \<Rightarrow> pydict" where
  "full_fields k n max_length =
     region_fields n max_length @
     [(''ISO'', PStr k),
      (''total_max_digits'', PInt (int (length (str_int n)) + max_length)),
      (''regex'', PStr (regex_of (str_int n) max_length))]"

text \<open>The three fields that the merge attaches.\<close>

definition gc_fields :: "pyval \<Rightarrow> pyval \<Rightarrow> pyval \<Rightarrow> pydict" where
  "gc_fields v1 v2 v3 = [(''GC_ID'', v1), (''GC_NM_AB_EN'', v2), (''GC_NM_AB_FR'', v3)]"

text \<open>The dict has the field.\<close>

definition has_field :: "pydict \<Rightarrow> string \<Rightarrow> bool" where
  "has_field d f = (f \<in> set (map fst d))"

text \<open>
  The fetched record \<open>row\<close> is long enough for the four positions and holds the str \<open>k\<close>
  at the ISO position.
\<close>

definition row_names :: "nat \<Rightarrow> nat \<Rightarrow> nat \<Rightarrow> nat \<Rightarrow> pyval \<Rightarrow> string \<Rightarrow> bool" where
  "row_names iso_i id_i en_i fr_i row k =
     (case py_len row of
        Inl e \<Rightarrow> False
      | Inr n \<Rightarrow> max (max iso_i id_i) (max en_i fr_i) < n \<and> py_getitem row iso_i = Inr (PStr k))"

text \<open>
  The four positions and the fetched records that the loop of line 119 runs over, when the
  stage gets that far with all four positions known.
\<close>

definition fetched_rows :: "(error + response) \<Rightarrow> ((nat \<times> nat \<times> nat \<times> nat) \<times> pyval list) option" where
  "fetched_rows got =
     (case fetch_gc_data got of
        Inl e \<Rightarrow> None
      | Inr gc_data \<Rightarrow>
          (case resolve_indices gc_data of
             Inl e \<Rightarrow> None
           | Inr (idx, records) \<Rightarrow>
               (case (iso_alpha_2_index idx, gc_id_index idx,
                      gc_nm_ab_en_index idx, gc_nm_ab_fr_index idx) of
                  (Some iso_i, Some id_i, Some en_i, Some fr_i) \<Rightarrow>
                    (case py_iter records of
                       Inl e \<Rightarrow> None
                     | Inr rows \<Rightarrow> Some ((iso_i, id_i, en_i, fr_i), rows))
                | _ \<Rightarrow> None)))"

text \<open>The three assignments of lines 124 to 126 on one record dict.\<close>

definition attach :: "pyval \<Rightarrow> pyval \<Rightarrow> pyval \<Rightarrow> pydict \<Rightarrow> pydict" where
  "attach v1 v2 v3 d =
     dict_set ''GC_NM_AB_FR'' v3 (dict_set ''GC_NM_AB_EN'' v2 (dict_set ''GC_ID'' v1 d))"

text \<open>The dict has none of the three fields that the merge attaches.\<close>

definition gc_free :: "pydict \<Rightarrow> bool" where
  "gc_free d = (\<not> has_field d ''GC_ID'' \<and> \<not> has_field d ''GC_NM_AB_EN'' \<and> \<not> has_field d ''GC_NM_AB_FR'')"

text \<open>
  What the merge has made of the entry \<open>e0\<close> of the table once the fetched records \<open>ps\<close>
  are done: the entry \<open>e\<close>.
\<close>

definition entry_after ::
  "nat \<Rightarrow> nat \<Rightarrow> nat \<Rightarrow> nat \<Rightarrow> pyval list \<Rightarrow> string \<times> pydict \<Rightarrow> string \<times> pydict \<Rightarrow> bool" where
  "entry_after a b c d ps e0 e =
     (fst e = fst e0 \<and>
      (if fst e0 \<noteq> [] \<and> (\<exists>row\<in>set ps. row_names a b c d row (fst e0))
       then (\<exists>row\<in>set ps. \<exists>v1 v2 v3.
               row_names a b c d row (fst e0) \<and> py_getitem row b = Inr v1 \<and>
               py_getitem row c = Inr v2 \<and> py_getitem row d = Inr v3 \<and>
               snd e = snd e0 @ gc_fields v1 v2 v3)
       else snd e = snd e0))"

text \<open>The str under \<^verbatim>\<open>country_code\<close> in the dict of a table entry, the group it is put in.\<close>

definition cc_str :: "string \<times> pydict \<Rightarrow> string" where
  "cc_str e = (case get_str (snd e) ''country_code'' of Inl x \<Rightarrow> [] | Inr s \<Rightarrow> s)"

text \<open>The list stored under a key of \<^verbatim>\<open>country_code_groups\<close>, empty when there is none.\<close>

definition group_of :: "(string \<times> (string \<times> pydict) list) list \<Rightarrow> string \<Rightarrow> (string \<times> pydict) list" where
  "group_of groups cc = (case map_of groups cc of None \<Rightarrow> [] | Some es \<Rightarrow> es)"

text \<open>The key \<^verbatim>\<open>int(k)\<close> of a calling code string, where it is defined.\<close>

definition int_of :: "string \<Rightarrow> int" where
  "int_of k = (case py_int k of Inl e \<Rightarrow> 0 | Inr n \<Rightarrow> n)"

text \<open>The integer value of the \<^verbatim>\<open>country_code\<close> of a record dict.\<close>

definition calling_code :: "pydict \<Rightarrow> error + int" where
  "calling_code d = (case get_str d ''country_code'' of Inl e \<Rightarrow> Inl e | Inr cc \<Rightarrow> py_int cc)"

text \<open>
  The order of the output file: the entry \<open>e1\<close> has the lower calling code, read as an
  integer, or the same calling code and the lower ISO key.
\<close>

definition sort_before :: "string \<times> pydict \<Rightarrow> string \<times> pydict \<Rightarrow> bool" where
  "sort_before e1 e2 =
     (case (calling_code (snd e1), calling_code (snd e2)) of
        (Inr m, Inr n) \<Rightarrow> m < n \<or> (m = n \<and> fst e1 < fst e2)
      | _ \<Rightarrow> False)"

section \<open>Sample inputs\<close>

text \<open>Small inputs on which the statements below are tried: metadata for a few regions, of
  which some have none, no description or no length, and three responses of the server.\<close>

definition region_metadata :: "int \<Rightarrow> int list \<Rightarrow> error + phone_metadata option" where
  "region_metadata n lengths =
     Inr (Some \<lparr>country_code = n, general_desc = Some \<lparr>possible_length = lengths\<rparr>\<rparr>)"

definition sample_metadata :: metadata_source where
  "sample_metadata r =
     (if r = ''GB'' then region_metadata 44 [7, 9, 10]
      else if r = ''US'' \<or> r = ''CA'' then region_metadata 1 [10]
      else if r = ''TA'' then region_metadata 290 []
      else if r = ''AC'' then Inr (Some \<lparr>country_code = 247, general_desc = None\<rparr>)
      else if r = ''XK'' then Inl (LibraryError ''no metadata'')
      else Inr None)"

definition sample_regions :: "string list" where
  "sample_regions = [''US'', ''GB'', ''TA'', ''CA'', ''AC'', ''XK'', ''AQ'']"

text \<open>A description whose only possible length is negative.\<close>

definition negative_length_metadata :: metadata_source where
  "negative_length_metadata r = region_metadata 1 [- 1]"

text \<open>A response with the four columns named, one record for CA and one for FR.\<close>

definition sample_response :: response where
  "sample_response =
     \<lparr>status_code = 200,
      json_result = Inr (PDict
        [(''fields'', PList [PDict [(''id'', PStr ''GC_ID'')], PDict [(''id'', PStr ''ISO_ALPHA_2_CD'')],
                             PDict [(''id'', PStr ''GC_NM_AB_EN'')], PDict [(''id'', PStr ''GC_NM_AB_FR'')]]),
         (''records'', PList [PList [PStr ''1000124'', PStr ''CA'', PStr ''Canada'', PStr ''Canada''],
                              PList [PStr ''1000250'', PStr ''FR'', PStr ''France'', PStr ''France'']])])\<rparr>"

definition sample_env :: environment where
  "sample_env =
     \<lparr>supported_regions = sample_regions,
      metadata_for_region = sample_metadata,
      http_get = (\<lambda>url. Inr sample_response)\<rparr>"

definition offline_env :: environment where
  "offline_env =
     \<lparr>supported_regions = sample_regions,
      metadata_for_region = sample_metadata,
      http_get = (\<lambda>url. Inl ConnectionError)\<rparr>"

text \<open>What the run of \<open>sample_env\<close> writes.\<close>

definition us_record :: pydict where
  "us_record =
     [(''country_code'', PStr ''1''), (''max_length'', PInt 10),
      (''example_format'', PStr ''+1 XXX XXX XXXX''), (''ISO'', PStr ''US''),
      (''total_max_digits'', PInt 11),
      (''regex'', PStr [CHR ''^'', CHR 0x5C, CHR ''+'', CHR ''1'', CHR 0x5C, CHR ''d'',
                        CHR ''{'', CHR ''1'', CHR ''0'', CHR ''}'', CHR ''$''])]"

definition gb_record :: pydict where
  "gb_record =
     [(''country_code'', PStr ''44''), (''max_length'', PInt 10),
      (''example_format'', PStr ''+44 XXX XXX XXXX''), (''ISO'', PStr ''GB''),
      (''total_max_digits'', PInt 12),
      (''regex'', PStr [CHR ''^'', CHR 0x5C, CHR ''+'', CHR ''4'', CHR ''4'', CHR 0x5C,
                        CHR ''d'', CHR ''{'', CHR ''1'', CHR ''0'', CHR ''}'', CHR ''$''])]"

definition ca_record :: pydict where
  "ca_record =
     [(''country_code'', PStr ''1''), (''max_length'', PInt 10),
      (''example_format'', PStr ''+1 XXX XXX XXXX''), (''ISO'', PStr ''CA''),
      (''total_max_digits'', PInt 11),
      (''regex'', PStr [CHR ''^'', CHR 0x5C, CHR ''+'', CHR ''1'', CHR 0x5C, CHR ''d'',
                        CHR ''{'', CHR ''1'', CHR ''0'', CHR ''}'', CHR ''$''])]"

definition ca_enriched :: pydict where
  "ca_enriched =
     ca_record @ [(''GC_ID'', PStr ''1000124''), (''GC_NM_AB_EN'', PStr ''Canada''),
                  (''GC_NM_AB_FR'', PStr ''Canada'')]"

text \<open>The scenario of the specification: three regions, two calling codes.\<close>

definition scenario_table :: table where
  "scenario_table =
     [(''US'', [(''country_code'', PStr ''1''), (''max_length'', PInt 10)]),
      (''CA'', [(''country_code'', PStr ''1''), (''max_length'', PInt 10)]),
      (''GB'', [(''country_code'', PStr ''44''), (''max_length'', PInt 10)])]"

text \<open>A response whose fields do not name the ISO column; its one record has twenty columns.\<close>

definition positional_row :: pyval where
  "positional_row =
     PList ([PStr ''1000826'', PNone, PNone, PNone, PStr ''United Kingdom'', PStr ''Royaume-Uni'']
            @ replicate 13 PNone @ [PStr ''GB''])"

definition positional_data :: pyval where
  "positional_data =
     PDict [(''fields'', PList [PDict [(''id'', PStr ''_id'')], PDict [(''id'', PStr ''GC_ID'')]]),
            (''records'', PList [positional_row])]"

definition positional_response :: response where
  "positional_response = \<lparr>status_code = 200, json_result = Inr positional_data\<rparr>"

text \<open>A response whose second record is a number: \<^verbatim>\<open>len(record)\<close> raises on it.\<close>

definition broken_response :: response where
  "broken_response =
     \<lparr>status_code = 200,
      json_result = Inr (PDict
        [(''fields'', PList [PDict [(''id'', PStr ''GC_ID'')], PDict [(''id'', PStr ''ISO_ALPHA_2_CD'')],
                             PDict [(''id'', PStr ''GC_NM_AB_EN'')], PDict [(''id'', PStr ''GC_NM_AB_FR'')]]),
         (''records'', PList [PList [PStr ''1000124'', PStr ''CA'', PStr ''Canada'', PStr ''Canada''],
                              PInt 7])])\<rparr>"

definition broken_env :: environment where
  "broken_env =
     \<lparr>supported_regions = [''CA''],
      metadata_for_region = sample_metadata,
      http_get = (\<lambda>url. Inr broken_response)\<rparr>"

section \<open>Decimal strings\<close>

text \<open>\<^verbatim>\<open>int(str(i))\<close> is \<open>i\<close>: the sort's key is defined on every calling code string.\<close>

lemma digit_char_props:
  "d < 10 \<Longrightarrow> is_digit (digit_char d) \<and> digit_val (digit_char d) = d"
  by (simp add: is_digit_def digit_val_def digit_char_def)

lemma is_digit_neq:
  "is_digit c \<Longrightarrow> c \<noteq> CHR ''-'' \<and> c \<noteq> CHR ''+'' \<and> c \<noteq> CHR ''X'' \<and> c \<noteq> CHR ''_'' \<and> \<not> is_space c"
  by (auto simp: is_digit_def is_space_def)

lemma more_digits_all:
  "\<forall>c\<in>set xs. is_digit c \<Longrightarrow>
   more_digits acc xs = Some (foldl (\<lambda>a c. 10 * a + digit_val c) acc xs)"
  by (induction acc xs rule: more_digits.induct) auto

lemma str_nat_digits: "\<forall>c\<in>set (str_nat n). is_digit c"
proof (induction n rule: str_nat.induct)
  case (1 n)
  show ?case
  proof (cases "n < 10")
    case True
    then show ?thesis by (simp add: str_nat.simps [of n] digit_char_props)
  next
    case False
    with 1 show ?thesis by (auto simp: str_nat.simps [of n] digit_char_props)
  qed
qed

lemma str_nat_value: "foldl (\<lambda>a c. 10 * a + digit_val c) 0 (str_nat n) = n"
proof (induction n rule: str_nat.induct)
  case (1 n)
  show ?case
  proof (cases "n < 10")
    case True
    then show ?thesis by (simp add: str_nat.simps [of n] digit_char_props)
  next
    case False
    with 1 show ?thesis by (simp add: str_nat.simps [of n] digit_char_props)
  qed
qed

lemma str_nat_nonempty: "str_nat n \<noteq> []"
  by (subst str_nat.simps) simp

lemma parse_nat_str_nat: "parse_nat (str_nat n) = Some n"
proof (cases "str_nat n")
  case Nil
  then show ?thesis by (simp add: str_nat_nonempty)
next
  case (Cons c cs)
  have dig: "\<forall>x\<in>set (c # cs). is_digit x"
    using str_nat_digits [of n] Cons by simp
  have "foldl (\<lambda>a c. 10 * a + digit_val c) 0 (c # cs) = n"
    using str_nat_value [of n] Cons by simp
  then show ?thesis
    using dig Cons by (simp add: parse_nat_def more_digits_all)
qed

lemma py_strip_id: "\<forall>c\<in>set s. \<not> is_space c \<Longrightarrow> py_strip s = s"
proof -
  assume a: "\<forall>c\<in>set s. \<not> is_space c"
  have d: "\<And>xs. \<forall>c\<in>set xs. \<not> is_space c \<Longrightarrow> dropWhile is_space xs = xs"
    by (case_tac xs) auto
  show ?thesis using a by (simp add: py_strip_def d)
qed

lemma str_int_no_space: "\<forall>c\<in>set (str_int i). \<not> is_space c"
  using str_nat_digits by (auto simp: str_int_def is_digit_neq) (simp add: is_space_def)

lemma py_int_str_int: "py_int (str_int i) = Inr i"
proof (cases "i < 0")
  case True
  then show ?thesis
    by (simp add: py_int_def py_strip_id [OF str_int_no_space])
       (simp add: str_int_def parse_nat_str_nat)
next
  case False
  obtain c cs where cs: "str_nat (nat i) = c # cs"
    using str_nat_nonempty [of "nat i"] by (cases "str_nat (nat i)") auto
  have "is_digit c" using str_nat_digits [of "nat i"] cs by simp
  then have "c \<noteq> CHR ''-''" "c \<noteq> CHR ''+''" by (simp_all add: is_digit_neq)
  moreover have "parse_nat (c # cs) = Some (nat i)"
    using parse_nat_str_nat [of "nat i"] cs by simp
  moreover have "py_strip (str_int i) = c # cs"
    using py_strip_id [OF str_int_no_space, of i] False cs by (simp add: str_int_def)
  ultimately show ?thesis using False by (simp add: py_int_def)
qed

lemma str_int_no_X: "CHR ''X'' \<notin> set (str_int i)"
  using str_nat_digits is_digit_neq by (auto simp: str_int_def)

lemma str_int_inj: "str_int a = str_int b \<Longrightarrow> a = b"
  by (metis py_int_str_int sum.inject(2))

section \<open>Dicts and the harvester\<close>

lemma dict_set_keys:
  "map fst (dict_set k v d) = (if k \<in> set (map fst d) then map fst d else map fst d @ [k])"
  by (induction d) force+

lemma map_of_dict_set: "map_of (dict_set k v d) = (map_of d)(k \<mapsto> v)"
  by (induction d) (auto simp: fun_eq_iff)

lemma dict_set_new: "k \<notin> set (map fst d) \<Longrightarrow> dict_set k v d = d @ [(k, v)]"
  by (induction d) auto

lemma dict_set_old: "k \<notin> set (map fst d) \<Longrightarrow> dict_set k v (d @ (k, x) # r) = d @ (k, v) # r"
  by (induction d) auto

lemma dict_set_distinct: "distinct (map fst d) \<Longrightarrow> distinct (map fst (dict_set k v d))"
  by (simp add: dict_set_keys)

lemma dict_set_entries: "set (dict_set k v d) \<subseteq> insert (k, v) (set d)"
  by (induction d) (auto split: if_splits)

lemma py_max_Max: "xs \<noteq> [] \<Longrightarrow> py_max xs = Inr (Max (set xs))"
  by (cases xs) (simp_all add: py_max_def Max.set_eq_fold [symmetric])

lemma harvest_region_eq:
  "harvest_region mfr r t = (case stored_fields mfr r of None \<Rightarrow> t | Some d \<Rightarrow> dict_set r d t)"
  by (simp add: harvest_region_def stored_fields_def region_fields_def py_max_Max Let_def
           split: sum.splits option.splits)

lemma map_of_harvest:
  "map_of (fold (harvest_region mfr) rs t) r =
     (if r \<in> set rs \<and> stored_fields mfr r \<noteq> None then stored_fields mfr r else map_of t r)"
  by (induction rs arbitrary: t)
     (auto simp: harvest_region_eq map_of_dict_set split: option.splits)

lemma distinct_harvest:
  "distinct (map fst t) \<Longrightarrow> distinct (map fst (fold (harvest_region mfr) rs t))"
  by (induction rs arbitrary: t) (auto simp: harvest_region_eq dict_set_distinct split: option.splits)

lemma harvest_entries:
  "(k, d) \<in> set (fold (harvest_region mfr) rs t) \<Longrightarrow>
     (k, d) \<in> set t \<or> (k \<in> set rs \<and> stored_fields mfr k = Some d)"
proof (induction rs arbitrary: t)
  case Nil
  then show ?case by simp
next
  case (Cons r rs)
  from Cons.IH [OF Cons.prems [simplified]]
  show ?case
    using dict_set_entries [of r _ t]
    by (auto simp: harvest_region_eq split: option.splits)
qed


lemma harvest_keys:
  "r \<in> set (map fst (get_up_to_date_phone_formats source regions)) \<longleftrightarrow>
     r \<in> set regions \<and> stored_fields source r \<noteq> None"
proof -
  have "r \<in> set (map fst (get_up_to_date_phone_formats source regions)) \<longleftrightarrow>
        map_of (get_up_to_date_phone_formats source regions) r \<noteq> None"
    by (simp add: map_of_eq_None_iff)
  then show ?thesis
    by (simp add: get_up_to_date_phone_formats_def map_of_harvest)
qed

lemma harvest_member:
  "(r, data) \<in> set (get_up_to_date_phone_formats source regions) \<Longrightarrow>
     r \<in> set regions \<and> stored_fields source r = Some data"
  using harvest_entries [of r data source regions "[]"]
  by (simp add: get_up_to_date_phone_formats_def)

lemma stored_fields_shape:
  "stored_fields source r = Some data \<Longrightarrow>
     \<exists>m d. source r = Inr (Some m) \<and> general_desc m = Some d \<and> possible_length d \<noteq> [] \<and>
       data = region_fields (country_code m) (Max (set (possible_length d)))"
  by (auto simp: stored_fields_def split: sum.splits option.splits if_splits)

lemma count_X_example:
  "count_list (example_format_of (str_int n) m) CHR ''X'' = nat m"
proof -
  have "filter ((=) CHR ''X'') (str_int n) = []"
    using str_int_no_X [of n] by (auto simp: filter_empty_conv)
  moreover have "4 < m \<Longrightarrow> Suc (Suc (Suc (nat (m - 3)))) = nat m"
    by arith
  moreover have "7 < m \<Longrightarrow> Suc (Suc (Suc (Suc (Suc (Suc (nat (m - 6))))))) = nat m"
    by arith
  ultimately show ?thesis
    by (simp add: example_format_of_def str_mul_def count_list_eq_length_filter)
qed

section \<open>The harvested records\<close>



text \<open>
  C7: in every harvested record \<^verbatim>\<open>example_format\<close> is \<^verbatim>\<open>"+<country_code> "\<close> followed by
  \<^verbatim>\<open>max_length\<close> X's when \<^verbatim>\<open>max_length <= 4\<close>, by \<^verbatim>\<open>"XXX "\<close> and \<^verbatim>\<open>max_length - 3\<close> X's
  when \<^verbatim>\<open>4 < max_length <= 7\<close>, and by \<^verbatim>\<open>"XXX XXX "\<close> and \<^verbatim>\<open>max_length - 6\<close> X's when
  \<^verbatim>\<open>max_length > 7\<close>; a length of 6 gives \<^verbatim>\<open>"+<cc> XXX XXX"\<close> and a length of 3 gives
  \<^verbatim>\<open>"+<cc> XXX"\<close>.
\<close>

theorem harvested_example_format:
  assumes "(r, data) \<in> set (get_up_to_date_phone_formats source regions)"
  shows "\<exists>cc n. dict_get data ''country_code'' = Inr (PStr cc) \<and>
           dict_get data ''max_length'' = Inr (PInt n) \<and>
           dict_get data ''example_format'' =
             Inr (PStr (''+'' @ cc @ '' '' @
               (if n \<le> 4 then replicate (nat n) CHR ''X''
                else if n \<le> 7 then ''XXX '' @ replicate (nat (n - 3)) CHR ''X''
                else ''XXX XXX '' @ replicate (nat (n - 6)) CHR ''X''))) \<and>
           (n = 6 \<longrightarrow> dict_get data ''example_format'' = Inr (PStr (''+'' @ cc @ '' XXX XXX''))) \<and>
           (n = 3 \<longrightarrow> dict_get data ''example_format'' = Inr (PStr (''+'' @ cc @ '' XXX'')))"
proof -
  obtain m :: phone_metadata and d :: phone_number_desc where f: "data = region_fields (country_code m) (Max (set (possible_length d)))"
    using stored_fields_shape [of source r data] harvest_member [OF assms] by blast
  have six: "replicate 3 CHR ''X'' = ''XXX''"
    by (simp add: numeral_3_eq_3)
  show ?thesis
    unfolding f
    by (auto simp: region_fields_def dict_get_def example_format_of_def str_mul_def six)
qed

theorem harvested_example_format_witness:
  "\<exists>cc n.
     dict_get [(''country_code'', PStr ''44''), (''max_length'', PInt 10),
               (''example_format'', PStr ''+44 XXX XXX XXXX'')] ''country_code'' = Inr (PStr cc) \<and>
     dict_get [(''country_code'', PStr ''44''), (''max_length'', PInt 10),
               (''example_format'', PStr ''+44 XXX XXX XXXX'')] ''max_length'' = Inr (PInt n) \<and>
     dict_get [(''country_code'', PStr ''44''), (''max_length'', PInt 10),
               (''example_format'', PStr ''+44 XXX XXX XXXX'')] ''example_format'' =
       Inr (PStr (''+'' @ cc @ '' '' @
         (if n \<le> 4 then replicate (nat n) CHR ''X''
          else if n \<le> 7 then ''XXX '' @ replicate (nat (n - 3)) CHR ''X''
          else ''XXX XXX '' @ replicate (nat (n - 6)) CHR ''X'')))"
proof -
  have "(''GB'', [(''country_code'', PStr ''44''), (''max_length'', PInt 10),
                  (''example_format'', PStr ''+44 XXX XXX XXXX'')]) \<in>
          set (get_up_to_date_phone_formats sample_metadata sample_regions)"
    by code_simp
  from harvested_example_format [OF this] show ?thesis
    by blast
qed

text \<open>
  C10, as amended: in every harvested record the number of X's in \<^verbatim>\<open>example_format\<close> is
  \<^verbatim>\<open>max_length\<close> when \<^verbatim>\<open>max_length\<close> is not negative, whatever the tier, and zero when it is
  negative (\<^verbatim>\<open>"X" * n\<close> is empty for a negative \<open>n\<close>).
\<close>

theorem harvested_X_count:
  assumes "(r, data) \<in> set (get_up_to_date_phone_formats source regions)"
  shows "\<exists>n s. dict_get data ''max_length'' = Inr (PInt n) \<and>
           dict_get data ''example_format'' = Inr (PStr s) \<and>
           count_list s CHR ''X'' = nat n"
proof -
  obtain m :: phone_metadata and d :: phone_number_desc where f: "data = region_fields (country_code m) (Max (set (possible_length d)))"
    using stored_fields_shape [of source r data] harvest_member [OF assms] by blast
  show ?thesis
    unfolding f by (simp add: region_fields_def dict_get_def count_X_example)
qed

theorem harvested_X_count_witness:
  "\<exists>n s.
     dict_get [(''country_code'', PStr ''44''), (''max_length'', PInt 10),
               (''example_format'', PStr ''+44 XXX XXX XXXX'')] ''max_length'' = Inr (PInt n) \<and>
     dict_get [(''country_code'', PStr ''44''), (''max_length'', PInt 10),
               (''example_format'', PStr ''+44 XXX XXX XXXX'')] ''example_format'' = Inr (PStr s) \<and>
     count_list s CHR ''X'' = nat n"
proof -
  have "(''GB'', [(''country_code'', PStr ''44''), (''max_length'', PInt 10),
                  (''example_format'', PStr ''+44 XXX XXX XXXX'')]) \<in>
          set (get_up_to_date_phone_formats sample_metadata sample_regions)"
    by code_simp
  from harvested_X_count [OF this] show ?thesis .
qed

text \<open>
  The claim as written fails for a negative length: the library's \<^verbatim>\<open>possible_length\<close> is
  a tuple of ints, and for \<^verbatim>\<open>(-1,)\<close> the record has \<^verbatim>\<open>max_length\<close> \<open>-1\<close> and no X at all.
\<close>

theorem harvested_X_count_counterexample:
  "get_up_to_date_phone_formats negative_length_metadata [''ZZ''] =
     [(''ZZ'', [(''country_code'', PStr ''1''), (''max_length'', PInt (- 1)),
                (''example_format'', PStr ''+1 '')])] \<and>
   int (count_list ''+1 '' CHR ''X'') \<noteq> - 1"
  by code_simp

section \<open>The derived fields are added\<close>

lemma add_fields_region: "add_fields k (region_fields n m) = Inr (full_fields k n m)"
  by (simp add: add_fields_def region_fields_def full_fields_def get_str_def get_int_def
        dict_get_def)

lemma add_information_shape:
  "\<forall>e\<in>set t. \<exists>n m. snd e = region_fields n m \<Longrightarrow>
     \<exists>t'. add_information t = Inr t' \<and> map fst t' = map fst t \<and>
       (\<forall>e\<in>set t'. \<exists>n m. snd e = full_fields (fst e) n m)"
proof (induction t)
  case Nil
  then show ?case by simp
next
  case (Cons e t)
  obtain k d where e: "e = (k, d)" by (cases e)
  from Cons.prems e obtain n m where d: "d = region_fields n m" by auto
  from Cons obtain t' where t': "add_information t = Inr t'" "map fst t' = map fst t"
    "\<forall>e\<in>set t'. \<exists>n m. snd e = full_fields (fst e) n m" by auto
  show ?case
    using t' by (auto simp: e d add_fields_region)
qed

lemma harvested_shape:
  "\<exists>t. harvested env = Inr t \<and> distinct (map fst t) \<and>
     set (map fst t) \<subseteq> set (supported_regions env) \<and>
     (\<forall>e\<in>set t. \<exists>n m. snd e = full_fields (fst e) n m)"
proof -
  let ?h = "get_up_to_date_phone_formats (metadata_for_region env) (supported_regions env)"
  have shape: "\<forall>e\<in>set ?h. \<exists>n m. snd e = region_fields n m"
  proof
    fix e assume "e \<in> set ?h"
    then have "(fst e, snd e) \<in> set ?h" by simp
    from harvest_member [OF this] stored_fields_shape [of "metadata_for_region env" "fst e" "snd e"]
    show "\<exists>n m. snd e = region_fields n m" by blast
  qed
  have dist: "distinct (map fst ?h)"
    unfolding get_up_to_date_phone_formats_def by (rule distinct_harvest) simp
  have sub: "set (map fst ?h) \<subseteq> set (supported_regions env)"
    using harvest_keys [of _ "metadata_for_region env" "supported_regions env"] by blast
  from add_information_shape [OF shape] dist sub show ?thesis
    unfolding harvested_def by (metis)
qed

section \<open>The merge loop\<close>

lemma item_set_map:
  "distinct (map fst t) \<Longrightarrow> k \<in> set (map fst t) \<Longrightarrow>
     item_set k f v t = Inr (map (\<lambda>e. if fst e = k then (fst e, dict_set f v (snd e)) else e) t)"
proof (induction t)
  case Nil
  then show ?case by simp
next
  case (Cons e t)
  obtain k' d where e: "e = (k', d)" by (cases e)
  show ?case
  proof (cases "k' = k")
    case True
    then have "k \<notin> set (map fst t)" using Cons.prems e by simp
    then have "map (\<lambda>e. if fst e = k then (fst e, dict_set f v (snd e)) else e) t = t"
      by (induction t) auto
    then show ?thesis using True e by simp
  next
    case False
    then show ?thesis using Cons e by simp
  qed
qed

lemma getitem_ok:
  "py_len row = Inr n \<Longrightarrow> py_getitem row a = Inr x \<Longrightarrow> i < n \<Longrightarrow> \<exists>v. py_getitem row i = Inr v"
  by (cases row) (auto split: if_splits)

lemma found_str:
  "(if py_truthy c then py_in_table c t else Inr False) = Inr True \<longleftrightarrow>
     (\<exists>k. c = PStr k \<and> k \<noteq> [] \<and> k \<in> set (map fst t))"
  by (cases c) auto

lemma assign_column_map:
  "distinct (map fst t) \<Longrightarrow> k \<in> set (map fst t) \<Longrightarrow> py_getitem row i = Inr v \<Longrightarrow>
     assign_column (PStr k) f row i t =
       Inr (map (\<lambda>e. if fst e = k then (fst e, dict_set f v (snd e)) else e) t)"
  by (simp add: assign_column_def item_set_map)

lemma map_entry_keys:
  "map fst (map (\<lambda>e. if fst e = k then (fst e, g (snd e)) else e) u) = map fst u"
  by (induction u) auto

lemma merge_record_hit:
  assumes dist: "distinct (map fst t)"
    and k: "k \<noteq> []" "k \<in> set (map fst t)"
    and names: "row_names a b c d row k"
  shows "\<exists>v1 v2 v3. py_getitem row b = Inr v1 \<and> py_getitem row c = Inr v2 \<and>
           py_getitem row d = Inr v3 \<and>
           merge_record a b c d row t =
             (None, map (\<lambda>e. if fst e = k then (fst e, attach v1 v2 v3 (snd e)) else e) t)"
proof -
  from names obtain n where n: "py_len row = Inr n" "max (max a b) (max c d) < n"
    and iso: "py_getitem row a = Inr (PStr k)"
    by (auto simp: row_names_def split: sum.splits)
  have lt: "b < n" "c < n" "d < n"
    using n(2) by simp_all
  obtain v1 where v1: "py_getitem row b = Inr v1"
    using getitem_ok [OF n(1) iso lt(1)] by blast
  obtain v2 where v2: "py_getitem row c = Inr v2"
    using getitem_ok [OF n(1) iso lt(2)] by blast
  obtain v3 where v3: "py_getitem row d = Inr v3"
    using getitem_ok [OF n(1) iso lt(3)] by blast
  note v = v1 v2 v3
  let ?f1 = "\<lambda>e. if fst e = k then (fst e, dict_set ''GC_ID'' v1 (snd e)) else e"
  let ?f2 = "\<lambda>e. if fst e = k then (fst e, dict_set ''GC_NM_AB_EN'' v2 (snd e)) else e"
  let ?f3 = "\<lambda>e. if fst e = k then (fst e, dict_set ''GC_NM_AB_FR'' v3 (snd e)) else e"
  have d1: "distinct (map fst (map ?f1 t))" "k \<in> set (map fst (map ?f1 t))"
    using dist k(2) by (simp_all only: map_entry_keys)
  have d2: "distinct (map fst (map ?f2 (map ?f1 t)))" "k \<in> set (map fst (map ?f2 (map ?f1 t)))"
    using dist k(2) by (simp_all only: map_entry_keys)
  have s1: "assign_column (PStr k) ''GC_ID'' row b t = Inr (map ?f1 t)"
    by (rule assign_column_map [OF dist k(2) v(1)])
  have s2: "assign_column (PStr k) ''GC_NM_AB_EN'' row c (map ?f1 t) = Inr (map ?f2 (map ?f1 t))"
    by (rule assign_column_map [OF d1 v(2)])
  have s3: "assign_column (PStr k) ''GC_NM_AB_FR'' row d (map ?f2 (map ?f1 t))
              = Inr (map ?f3 (map ?f2 (map ?f1 t)))"
    by (rule assign_column_map [OF d2 v(3)])
  have comp: "map ?f3 (map ?f2 (map ?f1 t)) =
      map (\<lambda>e. if fst e = k then (fst e, attach v1 v2 v3 (snd e)) else e) t"
    by (simp add: attach_def)
  have found: "(if py_truthy (PStr k) then py_in_table (PStr k) t else Inr False) = Inr True"
    using k by simp
  have "merge_record a b c d row t = (None, map ?f3 (map ?f2 (map ?f1 t)))"
    unfolding merge_record_def
    by (simp only: n iso found s1 s2 s3 sum.case if_True if_False not_True_eq_False simp_thms)
  then have "merge_record a b c d row t =
      (None, map (\<lambda>e. if fst e = k then (fst e, attach v1 v2 v3 (snd e)) else e) t)"
    by (simp only: comp)
  with v show ?thesis by blast
qed

lemma merge_record_miss:
  assumes "\<not> (\<exists>k. k \<noteq> [] \<and> k \<in> set (map fst t) \<and> row_names a b c d row k)"
  shows "snd (merge_record a b c d row t) = t"
proof (cases "py_len row")
  case (Inl e)
  then show ?thesis by (simp add: merge_record_def)
next
  case (Inr n)
  show ?thesis
  proof (cases "max (max a b) (max c d) < n")
    case False
    then show ?thesis using Inr by (simp add: merge_record_def)
  next
    case True
    show ?thesis
    proof (cases "py_getitem row a")
      case (Inl e)
      then show ?thesis using Inr True by (simp add: merge_record_def)
    next
      case iso: (Inr iso_code)
      have "(if py_truthy iso_code then py_in_table iso_code t else Inr False) \<noteq> Inr True"
      proof
        assume "(if py_truthy iso_code then py_in_table iso_code t else Inr False) = Inr True"
        then obtain k where "iso_code = PStr k" "k \<noteq> []" "k \<in> set (map fst t)"
          unfolding found_str by blast
        with assms Inr True iso show False by (auto simp: row_names_def)
      qed
      then consider e where "(if py_truthy iso_code then py_in_table iso_code t else Inr False) = Inl e"
        | "(if py_truthy iso_code then py_in_table iso_code t else Inr False) = Inr False"
        by (cases "if py_truthy iso_code then py_in_table iso_code t else Inr False") auto
      then show ?thesis
      proof cases
        case 1
        show ?thesis
          unfolding merge_record_def
          by (simp only: Inr True iso 1 sum.case if_True if_False not_True_eq_False simp_thms snd_conv)
      next
        case 2
        show ?thesis
          unfolding merge_record_def
          by (simp only: Inr True iso 2 sum.case if_True if_False not_True_eq_False
                not_False_eq_True simp_thms snd_conv)
      qed
    qed
  qed
qed

lemma attach_base: "gc_free d \<Longrightarrow> attach v1 v2 v3 d = d @ gc_fields v1 v2 v3"
  by (simp add: gc_free_def has_field_def attach_def gc_fields_def dict_set_new)

lemma attach_over:
  assumes "gc_free d"
  shows "attach v1 v2 v3 (d @ gc_fields x y z) = d @ gc_fields v1 v2 v3"
proof -
  have 1: "dict_set ''GC_ID'' v1 (d @ gc_fields x y z) =
           d @ [(''GC_ID'', v1), (''GC_NM_AB_EN'', y), (''GC_NM_AB_FR'', z)]"
    using assms by (simp add: gc_free_def has_field_def gc_fields_def dict_set_old)
  have 2: "dict_set ''GC_NM_AB_EN'' v2 ((d @ [(''GC_ID'', v1)]) @ (''GC_NM_AB_EN'', y) # [(''GC_NM_AB_FR'', z)]) =
           (d @ [(''GC_ID'', v1)]) @ (''GC_NM_AB_EN'', v2) # [(''GC_NM_AB_FR'', z)]"
    using assms by (intro dict_set_old) (simp add: gc_free_def has_field_def)
  have 3: "dict_set ''GC_NM_AB_FR'' v3 ((d @ [(''GC_ID'', v1), (''GC_NM_AB_EN'', v2)]) @ (''GC_NM_AB_FR'', z) # []) =
           (d @ [(''GC_ID'', v1), (''GC_NM_AB_EN'', v2)]) @ (''GC_NM_AB_FR'', v3) # []"
    using assms by (intro dict_set_old) (simp add: gc_free_def has_field_def)
  show ?thesis
    using 1 2 3 by (simp add: attach_def gc_fields_def)
qed

lemma full_fields_gc_free: "gc_free (full_fields k n m)"
  by (simp add: gc_free_def has_field_def full_fields_def region_fields_def)

lemma row_names_unique: "row_names a b c d row k \<Longrightarrow> row_names a b c d row k' \<Longrightarrow> k' = k"
  by (auto simp: row_names_def split: sum.splits)

lemma entry_after_keys: "list_all2 (entry_after a b c d ps) t0 t \<Longrightarrow> map fst t = map fst t0"
  by (induction t0 t rule: list_all2_induct) (auto simp: entry_after_def)


lemma entry_after_miss:
  assumes inv: "entry_after a b c d ps e0 e"
    and miss: "fst e0 \<noteq> [] \<Longrightarrow> \<not> row_names a b c d row (fst e0)"
  shows "entry_after a b c d (ps @ [row]) e0 e"
  using inv miss by (auto simp: entry_after_def split: if_splits)

lemma entry_after_hit:
  assumes free: "gc_free (snd e0)"
    and inv: "entry_after a b c d ps e0 e"
    and k: "k \<noteq> []" "row_names a b c d row k"
    and v: "py_getitem row b = Inr v1" "py_getitem row c = Inr v2" "py_getitem row d = Inr v3"
  shows "entry_after a b c d (ps @ [row]) e0
           (if fst e = k then (fst e, attach v1 v2 v3 (snd e)) else e)"
proof (cases "fst e = k")
  case True
  have key: "fst e0 = k" using inv True by (simp add: entry_after_def)
  have "snd e = snd e0 \<or> (\<exists>x y z. snd e = snd e0 @ gc_fields x y z)"
    using inv by (auto simp: entry_after_def split: if_splits)
  then have "attach v1 v2 v3 (snd e) = snd e0 @ gc_fields v1 v2 v3"
    using free by (auto simp: attach_base attach_over)
  then show ?thesis
    using True key k v by (auto simp: entry_after_def)
next
  case False
  have key: "fst e0 \<noteq> k" "fst e = fst e0" using inv False by (simp_all add: entry_after_def)
  have "\<not> row_names a b c d row (fst e0)"
    using row_names_unique [OF k(2)] key by blast
  then have "entry_after a b c d (ps @ [row]) e0 e"
    using entry_after_miss [OF inv] by blast
  then show ?thesis
    using False by simp
qed

lemma merge_step_inv:
  assumes dist: "distinct (map fst t0)"
    and free: "\<forall>e\<in>set t0. gc_free (snd e)"
    and inv: "list_all2 (entry_after a b c d ps) t0 t"
  shows "(fst (merge_record a b c d row t) \<noteq> None \<and> snd (merge_record a b c d row t) = t) \<or>
         (fst (merge_record a b c d row t) = None \<and>
          list_all2 (entry_after a b c d (ps @ [row])) t0 (snd (merge_record a b c d row t)))"
proof -
  have keys: "map fst t = map fst t0" by (rule entry_after_keys [OF inv])
  then have dist': "distinct (map fst t)" using dist by simp
  show ?thesis
  proof (cases "\<exists>k. k \<noteq> [] \<and> k \<in> set (map fst t) \<and> row_names a b c d row k")
    case True
    then obtain k where k: "k \<noteq> []" "k \<in> set (map fst t)" "row_names a b c d row k" by blast
    from merge_record_hit [OF dist' k] obtain v1 v2 v3 where
      v: "py_getitem row b = Inr v1" "py_getitem row c = Inr v2" "py_getitem row d = Inr v3"
      and m: "merge_record a b c d row t =
        (None, map (\<lambda>e. if fst e = k then (fst e, attach v1 v2 v3 (snd e)) else e) t)"
      by blast
    have "list_all2 (\<lambda>e0 e. entry_after a b c d (ps @ [row]) e0
             (if fst e = k then (fst e, attach v1 v2 v3 (snd e)) else e)) t0 t"
      using inv
    proof (rule list.rel_mono_strong)
      fix e0 e assume "e0 \<in> set t0" "entry_after a b c d ps e0 e"
      then show "entry_after a b c d (ps @ [row]) e0
             (if fst e = k then (fst e, attach v1 v2 v3 (snd e)) else e)"
        using free entry_after_hit [OF _ _ k(1) k(3) v] by blast
    qed
    then have "list_all2 (entry_after a b c d (ps @ [row])) t0
        (map (\<lambda>e. if fst e = k then (fst e, attach v1 v2 v3 (snd e)) else e) t)"
      by (simp add: list_all2_map2)
    then show ?thesis using m by simp
  next
    case False
    then have same: "snd (merge_record a b c d row t) = t"
      by (rule merge_record_miss)
    have "list_all2 (entry_after a b c d (ps @ [row])) t0 t"
      using inv
    proof (rule list.rel_mono_strong)
      fix e0 e assume e0: "e0 \<in> set t0" and ea: "entry_after a b c d ps e0 e"
      have "fst e0 \<in> set (map fst t)" using e0 keys by simp
      then have "fst e0 \<noteq> [] \<Longrightarrow> \<not> row_names a b c d row (fst e0)"
        using False by blast
      then show "entry_after a b c d (ps @ [row]) e0 e"
        by (rule entry_after_miss [OF ea])
    qed
    then show ?thesis using same by (cases "fst (merge_record a b c d row t)") auto
  qed
qed

lemma merge_records_inv:
  assumes dist: "distinct (map fst t0)"
    and free: "\<forall>e\<in>set t0. gc_free (snd e)"
  shows "list_all2 (entry_after a b c d ps) t0 t \<Longrightarrow>
         merge_records a b c d rows t = (err, t') \<Longrightarrow>
         \<exists>qs. set qs \<subseteq> set rows \<and> (err = None \<longrightarrow> qs = rows) \<and>
              list_all2 (entry_after a b c d (ps @ qs)) t0 t'"
proof (induction rows arbitrary: ps t)
  case Nil
  then show ?case by (intro exI [of _ "[]"]) simp
next
  case (Cons row rows)
  obtain e1 t1 where m: "merge_record a b c d row t = (e1, t1)"
    by (cases "merge_record a b c d row t")
  from merge_step_inv [OF dist free Cons.prems(1), of row] m
  consider "e1 \<noteq> None" "t1 = t"
    | "e1 = None" "list_all2 (entry_after a b c d (ps @ [row])) t0 t1"
    by auto
  then show ?case
  proof cases
    case 1
    then have "err \<noteq> None" "t' = t" using Cons.prems(2) m by auto
    then show ?thesis using Cons.prems(1) by (intro exI [of _ "[]"]) simp
  next
    case 2
    then have "merge_records a b c d rows t1 = (err, t')"
      using Cons.prems(2) m by simp
    from Cons.IH [OF 2(2) this] obtain qs where
      qs: "set qs \<subseteq> set rows" "err = None \<longrightarrow> qs = rows"
          "list_all2 (entry_after a b c d ((ps @ [row]) @ qs)) t0 t'"
      by blast
    then show ?thesis
      by (intro exI [of _ "row # qs"]) auto
  qed
qed

section \<open>Enrichment as a whole\<close>

lemma entry_after_refl: "list_all2 (entry_after a b c d []) t t"
  by (simp add: list_all2_same entry_after_def)

lemma enrich_rows_Some:
  "fetched_rows got = Some ((a, b, c, d), rows) \<Longrightarrow> enrich got t = merge_records a b c d rows t"
  by (auto simp: fetched_rows_def enrich_def merge_with_def split: sum.splits option.splits prod.splits)

lemma enrich_rows_None: "fetched_rows got = None \<Longrightarrow> snd (enrich got t) = t"
  by (auto simp: fetched_rows_def enrich_def merge_with_def split: sum.splits option.splits prod.splits)

lemma enrich_inv:
  assumes "distinct (map fst t0)" "\<forall>e\<in>set t0. gc_free (snd e)"
    and "fetched_rows got = Some ((a, b, c, d), rows)"
  shows "\<exists>qs. set qs \<subseteq> set rows \<and> (fst (enrich got t0) = None \<longrightarrow> qs = rows) \<and>
              list_all2 (entry_after a b c d qs) t0 (snd (enrich got t0))"
proof -
  have "merge_records a b c d rows t0 = (fst (enrich got t0), snd (enrich got t0))"
    using enrich_rows_Some [OF assms(3)] by simp
  from merge_records_inv [OF assms(1,2) entry_after_refl this] show ?thesis by simp
qed

lemma enrich_keys: 
  assumes "distinct (map fst t0)" "\<forall>e\<in>set t0. gc_free (snd e)"
  shows "map fst (snd (enrich got t0)) = map fst t0"
proof (cases "fetched_rows got")
  case None
  then show ?thesis by (simp add: enrich_rows_None)
next
  case (Some x)
  obtain a b c d rows where "x = ((a, b, c, d), rows)" by (cases x) auto
  from enrich_inv [OF assms Some [unfolded this]] entry_after_keys show ?thesis by blast
qed

section \<open>The groups\<close>

lemma dict_set_dom: "fst ` set (dict_set k v d) = insert k (fst ` set d)"
  using arg_cong [OF dict_set_keys [of k v d], of set] by auto

lemma group_of_dict_set:
  "group_of (dict_set k v g) cc = (if cc = k then v else group_of g cc)"
  by (simp add: group_of_def map_of_dict_set)

lemma group_entry_spec:
  assumes "get_str (snd e) ''country_code'' = Inr (cc_str e)"
  shows "\<exists>g'. group_entry e g = Inr g' \<and>
           set (map fst g') = insert (cc_str e) (set (map fst g)) \<and>
           (distinct (map fst g) \<longrightarrow> distinct (map fst g')) \<and>
           (\<forall>cc. group_of g' cc = group_of g cc @ (if cc = cc_str e then [e] else []))"
proof (cases "cc_str e \<in> set (map fst g)")
  case True
  then obtain es where es: "map_of g (cc_str e) = Some es"
    by (metis map_of_eq_None_iff not_Some_eq set_map)
  then have "group_entry e g = Inr (dict_set (cc_str e) (es @ [e]) g)"
    using True assms by (simp add: group_entry_def dict_get_def)
  moreover have "group_of g (cc_str e) = es" using es by (simp add: group_of_def)
  ultimately show ?thesis
    using True by (auto simp: dict_set_dom dict_set_distinct group_of_dict_set)
next
  case False
  then have none: "map_of g (cc_str e) = None"
    by (simp add: map_of_eq_None_iff)
  have "group_entry e g = Inr (dict_set (cc_str e) [e] (dict_set (cc_str e) [] g))"
    using False assms by (simp add: group_entry_def dict_get_def map_of_dict_set Let_def)
  moreover have "group_of g (cc_str e) = []" using none by (simp add: group_of_def)
  ultimately show ?thesis
    using False by (auto simp: dict_set_dom dict_set_distinct group_of_dict_set)
qed

lemma group_entries_spec:
  "\<forall>e\<in>set t. get_str (snd e) ''country_code'' = Inr (cc_str e) \<Longrightarrow>
     \<exists>g'. group_entries t g = Inr g' \<and>
       set (map fst g') = set (map fst g) \<union> cc_str ` set t \<and>
       (distinct (map fst g) \<longrightarrow> distinct (map fst g')) \<and>
       (\<forall>cc. group_of g' cc = group_of g cc @ filter (\<lambda>e. cc_str e = cc) t)"
proof (induction t arbitrary: g)
  case Nil
  then show ?case by simp
next
  case (Cons e t)
  from group_entry_spec [of e g] Cons.prems obtain g1 where
    g1: "group_entry e g = Inr g1"
        "set (map fst g1) = insert (cc_str e) (set (map fst g))"
        "distinct (map fst g) \<longrightarrow> distinct (map fst g1)"
        "\<forall>cc. group_of g1 cc = group_of g cc @ (if cc = cc_str e then [e] else [])"
    by auto
  from Cons.IH [of g1] Cons.prems obtain g' where
    g': "group_entries t g1 = Inr g'"
        "set (map fst g') = set (map fst g1) \<union> cc_str ` set t"
        "distinct (map fst g1) \<longrightarrow> distinct (map fst g')"
        "\<forall>cc. group_of g' cc = group_of g1 cc @ filter (\<lambda>e. cc_str e = cc) t"
    by auto
  show ?case
    using g1 g' by (intro exI [of _ g']) auto
qed

section \<open>The sorted table\<close>

lemma insort_key_decorated:
  "insort_key fst (h k, k) (map (\<lambda>k. (h k, k)) xs) = map (\<lambda>k. (h k, k)) (insort_key h k xs)"
  by (induction xs) auto

lemma sort_key_decorated:
  "sort_key fst (map (\<lambda>k. (h k, k)) ks) = map (\<lambda>k. (h k, k)) (sort_key h ks)"
  by (induction ks) (simp_all add: insort_key_decorated)

lemma int_keys_ok:
  "\<forall>k\<in>set ks. \<exists>n. py_int k = Inr n \<Longrightarrow> int_keys ks = Inr (map (\<lambda>k. (int_of k, k)) ks)"
  by (induction ks) (auto simp: int_of_def)

lemma sorted_by_int_ok:
  assumes "\<forall>k\<in>set ks. \<exists>n. py_int k = Inr n"
  shows "sorted_by_int ks = Inr (sort_key int_of ks)"
  by (simp add: sorted_by_int_def int_keys_ok [OF assms] sort_key_decorated comp_def)

lemma fold_dict_set_append:
  "distinct (map fst (acc @ es)) \<Longrightarrow>
     fold (\<lambda>e. dict_set (fst e) (snd e)) es acc = acc @ es"
proof (induction es arbitrary: acc)
  case Nil
  then show ?case by simp
next
  case (Cons e es)
  have "dict_set (fst e) (snd e) acc = acc @ [e]"
    using Cons.prems by (intro dict_set_new [THEN trans]) auto
  moreover have "distinct (map fst ((acc @ [e]) @ es))"
    using Cons.prems by simp
  ultimately show ?case
    using Cons.IH [of "acc @ [e]"] by simp
qed

lemma emit_groups_ok:
  "set ccs \<subseteq> set (map fst g) \<Longrightarrow>
   distinct (map fst (acc @ concat (map (\<lambda>c. sort_key fst (group_of g c)) ccs))) \<Longrightarrow>
   emit_groups ccs g acc = Inr (acc @ concat (map (\<lambda>c. sort_key fst (group_of g c)) ccs))"
proof (induction ccs arbitrary: acc)
  case Nil
  then show ?case by simp
next
  case (Cons c ccs)
  from Cons.prems(1) obtain es where es: "map_of g c = Some es"
    by (cases "map_of g c") (auto simp: map_of_eq_None_iff)
  then have get: "dict_get g c = Inr (group_of g c)"
    by (simp add: dict_get_def group_of_def)
  have d1: "distinct (map fst (acc @ sort_key fst (group_of g c)))"
    using Cons.prems(2) by auto
  have step: "fold (\<lambda>e. dict_set (fst e) (snd e)) (sort_key fst (group_of g c)) acc =
      acc @ sort_key fst (group_of g c)"
    by (rule fold_dict_set_append [OF d1])
  have d2: "distinct (map fst ((acc @ sort_key fst (group_of g c)) @
      concat (map (\<lambda>c. sort_key fst (group_of g c)) ccs)))"
    using Cons.prems(2) by simp
  have "set ccs \<subseteq> set (map fst g)" using Cons.prems(1) by simp
  from Cons.IH [OF this d2] show ?case
    by (simp add: get step)
qed

lemma set_concat_groups:
  "set (concat (map (\<lambda>c. sort_key fst (filter (\<lambda>e. cc_str e = c) t)) cs)) =
     {e \<in> set t. cc_str e \<in> set cs}"
  by (induction cs) auto

lemma distinct_concat_groups:
  "distinct t \<Longrightarrow> distinct cs \<Longrightarrow>
     distinct (concat (map (\<lambda>c. sort_key fst (filter (\<lambda>e. cc_str e = c) t)) cs))"
proof (induction cs)
  case Nil
  then show ?case by simp
next
  case (Cons c cs)
  have "set (sort_key fst (filter (\<lambda>e. cc_str e = c) t)) \<inter>
        set (concat (map (\<lambda>c. sort_key fst (filter (\<lambda>e. cc_str e = c) t)) cs)) = {}"
    using Cons.prems(2) unfolding set_concat_groups by auto
  then show ?case
    using Cons by simp
qed

lemma group_sorted:
  assumes dist: "distinct (map fst t)"
    and code: "\<forall>e\<in>set t. calling_code (snd e) = Inr (int_of (cc_str e))"
  shows "sorted_wrt sort_before (sort_key fst (filter (\<lambda>e. cc_str e = c) t))"
proof -
  let ?xs = "filter (\<lambda>e. cc_str e = c) t"
  let ?ys = "sort_key fst ?xs"
  have "distinct (map fst ?xs)" using dist by (rule distinct_map_filter)
  then have "distinct ?xs" "inj_on fst (set ?xs)" by (simp_all add: distinct_map)
  then have "distinct (map fst ?ys)" by (simp add: distinct_map)
  moreover have "sorted (map fst ?ys)" by (rule sorted_sort_key)
  ultimately have "sorted_wrt (<) (map fst ?ys)" by (simp add: strict_sorted_iff)
  then have strict: "sorted_wrt (\<lambda>x y. fst x < fst y) ?ys" by (simp add: sorted_wrt_map)
  show ?thesis
  proof (rule sorted_wrt_mono_rel [OF _ strict])
    fix x y assume "x \<in> set ?ys" "y \<in> set ?ys" "fst x < fst y"
    then show "sort_before x y"
      using code by (auto simp: sort_before_def)
  qed
qed

lemma concat_groups_sorted:
  assumes dist: "distinct (map fst t)"
    and code: "\<forall>e\<in>set t. calling_code (snd e) = Inr (int_of (cc_str e))"
  shows "sorted_wrt (\<lambda>c c'. int_of c < int_of c') cs \<Longrightarrow>
     sorted_wrt sort_before (concat (map (\<lambda>c. sort_key fst (filter (\<lambda>e. cc_str e = c) t)) cs))"
proof (induction cs)
  case Nil
  then show ?case by simp
next
  case (Cons c cs)
  have cross: "\<forall>x\<in>set (sort_key fst (filter (\<lambda>e. cc_str e = c) t)).
      \<forall>y\<in>set (concat (map (\<lambda>c. sort_key fst (filter (\<lambda>e. cc_str e = c) t)) cs)).
        sort_before x y"
    using Cons.prems code unfolding set_concat_groups
    by (auto simp: sort_before_def)
  show ?case
    using Cons cross group_sorted [OF dist code, of c]
    by (simp add: sorted_wrt_append)
qed

lemma sort_table_spec:
  assumes dist: "distinct (map fst t)"
    and cc: "\<forall>e\<in>set t. \<exists>n. get_str (snd e) ''country_code'' = Inr (str_int n)"
  shows "\<exists>out. sort_table t = Inr out \<and> set out = set t \<and> distinct (map fst out) \<and>
           sorted_wrt sort_before out"
proof -
  have both: "\<forall>e\<in>set t. \<exists>n. get_str (snd e) ''country_code'' = Inr (cc_str e) \<and>
      cc_str e = str_int n"
  proof
    fix e assume "e \<in> set t"
    with cc obtain n where "get_str (snd e) ''country_code'' = Inr (str_int n)" by blast
    then show "\<exists>n. get_str (snd e) ''country_code'' = Inr (cc_str e) \<and> cc_str e = str_int n"
      by (auto simp: cc_str_def)
  qed
  have str: "\<forall>e\<in>set t. get_str (snd e) ''country_code'' = Inr (cc_str e)"
    using both by blast
  have dec: "\<forall>e\<in>set t. \<exists>n. cc_str e = str_int n"
    using both by blast
  have code: "\<forall>e\<in>set t. calling_code (snd e) = Inr (int_of (cc_str e))"
  proof
    fix e assume "e \<in> set t"
    with dec str obtain n where "cc_str e = str_int n"
      "get_str (snd e) ''country_code'' = Inr (str_int n)" by force
    then show "calling_code (snd e) = Inr (int_of (cc_str e))"
      by (simp add: calling_code_def int_of_def py_int_str_int)
  qed
  from group_entries_spec [OF str, of "[]"] obtain g where
    g: "group_entries t [] = Inr g" "set (map fst g) = cc_str ` set t" "distinct (map fst g)"
       "\<forall>c. group_of g c = filter (\<lambda>e. cc_str e = c) t"
    by (auto simp: group_of_def)
  let ?keys = "map fst g"
  let ?ccs = "sort_key int_of ?keys"
  have dec_keys: "\<forall>k\<in>set ?keys. \<exists>n. k = str_int n"
    using dec g(2) by auto
  then have "\<forall>k\<in>set ?keys. \<exists>n. py_int k = Inr n"
    by (metis py_int_str_int)
  then have ccs: "sorted_by_int ?keys = Inr ?ccs"
    by (rule sorted_by_int_ok)
  have inj: "inj_on int_of (set ?keys)"
  proof (rule inj_onI)
    fix k k' assume "k \<in> set ?keys" "k' \<in> set ?keys" "int_of k = int_of k'"
    with dec_keys obtain n n' where "k = str_int n" "k' = str_int n'" by blast
    with \<open>int_of k = int_of k'\<close> show "k = k'"
      by (simp add: int_of_def py_int_str_int)
  qed
  have "distinct (map int_of ?ccs)"
    using inj g(3) by (simp add: distinct_map)
  moreover have "sorted (map int_of ?ccs)" by (rule sorted_sort_key)
  ultimately have "sorted_wrt (<) (map int_of ?ccs)" by (simp add: strict_sorted_iff)
  then have ord: "sorted_wrt (\<lambda>c c'. int_of c < int_of c') ?ccs"
    by (simp add: sorted_wrt_map)
  let ?out = "concat (map (\<lambda>c. sort_key fst (filter (\<lambda>e. cc_str e = c) t)) ?ccs)"
  have set_out: "set ?out = set t"
    unfolding set_concat_groups using g(2) by auto
  have "distinct t" using dist by (rule distinct_map [THEN iffD1, THEN conjunct1])
  then have "distinct ?out" using g(3) by (intro distinct_concat_groups) simp_all
  moreover have "inj_on fst (set ?out)"
    using dist set_out by (simp add: distinct_map)
  ultimately have dist_out: "distinct (map fst ?out)" by (simp add: distinct_map)
  have groups: "(\<lambda>c. sort_key fst (group_of g c)) = (\<lambda>c. sort_key fst (filter (\<lambda>e. cc_str e = c) t))"
    using g(4) by simp
  have "emit_groups ?ccs g [] = Inr ([] @ concat (map (\<lambda>c. sort_key fst (group_of g c)) ?ccs))"
    by (rule emit_groups_ok) (simp_all add: groups dist_out)
  then have "sort_table t = Inr ?out"
    by (simp add: sort_table_def g(1) ccs groups)
  with set_out dist_out concat_groups_sorted [OF dist code ord] show ?thesis by blast
qed

section \<open>The run as a whole\<close>

lemma list_all2_right:
  "list_all2 P xs ys \<Longrightarrow> y \<in> set ys \<Longrightarrow> \<exists>x\<in>set xs. P x y"
  by (induction xs ys rule: list_all2_induct) auto

lemma list_all2_left:
  "list_all2 P xs ys \<Longrightarrow> x \<in> set xs \<Longrightarrow> \<exists>y\<in>set ys. P x y"
  by (induction xs ys rule: list_all2_induct) auto

text \<open>An entry of the table after the enrichment: the harvested fields, alone or followed
  by the three fields of a fetched record that names the key.\<close>

lemma enriched_entry:
  assumes dist: "distinct (map fst t0)"
    and shape: "\<forall>e\<in>set t0. \<exists>n m. snd e = full_fields (fst e) n m"
    and e: "e \<in> set (snd (enrich got t0))"
  shows "\<exists>n m. snd e = full_fields (fst e) n m \<or>
           (\<exists>a b c d rows row v1 v2 v3.
              fetched_rows got = Some ((a, b, c, d), rows) \<and> row \<in> set rows \<and>
              row_names a b c d row (fst e) \<and> py_getitem row b = Inr v1 \<and>
              py_getitem row c = Inr v2 \<and> py_getitem row d = Inr v3 \<and>
              snd e = full_fields (fst e) n m @ gc_fields v1 v2 v3)"
proof (cases "fetched_rows got")
  case None
  then have "e \<in> set t0" using e by (simp add: enrich_rows_None)
  with shape show ?thesis by blast
next
  case (Some x)
  obtain a b c d rows where x: "fetched_rows got = Some ((a, b, c, d), rows)"
    using Some by (cases x) auto
  have free: "\<forall>e\<in>set t0. gc_free (snd e)"
    using shape full_fields_gc_free by metis
  from enrich_inv [OF dist free x] obtain qs where
    qs: "set qs \<subseteq> set rows" "list_all2 (entry_after a b c d qs) t0 (snd (enrich got t0))"
    by blast
  from list_all2_right [OF qs(2) e] obtain e0 where
    e0: "e0 \<in> set t0" "entry_after a b c d qs e0 e" by blast
  from shape e0(1) obtain n m where nm: "snd e0 = full_fields (fst e0) n m" by blast
  have key: "fst e = fst e0" using e0(2) by (simp add: entry_after_def)
  from e0(2) consider "snd e = snd e0"
    | row v1 v2 v3 where "row \<in> set qs" "row_names a b c d row (fst e0)"
        "py_getitem row b = Inr v1" "py_getitem row c = Inr v2" "py_getitem row d = Inr v3"
        "snd e = snd e0 @ gc_fields v1 v2 v3"
    by (auto simp: entry_after_def split: if_splits)
  then show ?thesis
  proof cases
    case 1
    then show ?thesis using nm key by auto
  next
    case 2
    then have "row \<in> set rows" using qs(1) by blast
    with 2 x nm key show ?thesis by (metis)
  qed
qed

text \<open>When the stage ends without an exception, every fetched record has been merged.\<close>

lemma enriched_complete:
  assumes dist: "distinct (map fst t0)"
    and shape: "\<forall>e\<in>set t0. \<exists>n m. snd e = full_fields (fst e) n m"
    and e: "e \<in> set (snd (enrich got t0))"
    and ok: "fst (enrich got t0) = None"
    and rows: "fetched_rows got = Some ((a, b, c, d), rows)"
    and row: "row \<in> set rows" "row_names a b c d row (fst e)" "fst e \<noteq> []"
  shows "\<exists>n m v1 v2 v3. snd e = full_fields (fst e) n m @ gc_fields v1 v2 v3"
proof -
  have free: "\<forall>e\<in>set t0. gc_free (snd e)"
    using shape full_fields_gc_free by metis
  from enrich_inv [OF dist free rows] ok have
    inv: "list_all2 (entry_after a b c d rows) t0 (snd (enrich got t0))"
    by auto
  from list_all2_right [OF inv e] obtain e0 where
    e0: "e0 \<in> set t0" "entry_after a b c d rows e0 e" by blast
  from shape e0(1) obtain n m where nm: "snd e0 = full_fields (fst e0) n m" by blast
  have key: "fst e = fst e0" using e0(2) by (simp add: entry_after_def)
  have "fst e0 \<noteq> [] \<and> (\<exists>row\<in>set rows. row_names a b c d row (fst e0))"
    using row key by auto
  then have "\<exists>v1 v2 v3. snd e = snd e0 @ gc_fields v1 v2 v3"
    using e0(2) by (auto simp: entry_after_def)
  then show ?thesis using nm key by metis
qed

lemma enriched_country_code:
  "d = full_fields k n m @ gc \<Longrightarrow> get_str d ''country_code'' = Inr (str_int n)"
  by (simp add: full_fields_def region_fields_def get_str_def dict_get_def)

text \<open>The script always gets to \<^verbatim>\<open>json.dump\<close>; what it dumps is the enriched table, sorted.\<close>

lemma run_shape:
  "\<exists>t0 out. harvested env = Inr t0 \<and> distinct (map fst t0) \<and>
     (\<forall>e\<in>set t0. \<exists>n m. snd e = full_fields (fst e) n m) \<and>
     map fst (snd (enrich (http_get env gc_url) t0)) = map fst t0 \<and>
     sort_table (snd (enrich (http_get env gc_url) t0)) = Inr out \<and>
     set out = set (snd (enrich (http_get env gc_url) t0)) \<and>
     distinct (map fst out) \<and> sorted_wrt sort_before out \<and>
     main env = Inr (''phone_formats_e164.json'', out)"
proof -
  from harvested_shape [of env] obtain t0 where
    t0: "harvested env = Inr t0" "distinct (map fst t0)"
        "\<forall>e\<in>set t0. \<exists>n m. snd e = full_fields (fst e) n m"
    by blast
  let ?t1 = "snd (enrich (http_get env gc_url) t0)"
  have free: "\<forall>e\<in>set t0. gc_free (snd e)"
    using t0(3) full_fields_gc_free by metis
  have keys: "map fst ?t1 = map fst t0"
    by (rule enrich_keys [OF t0(2) free])
  have cc: "\<forall>e\<in>set ?t1. \<exists>n. get_str (snd e) ''country_code'' = Inr (str_int n)"
  proof
    fix e assume "e \<in> set ?t1"
    from enriched_entry [OF t0(2,3) this] obtain n m gc where
      "snd e = full_fields (fst e) n m @ gc"
      by (metis append_Nil2)
    then show "\<exists>n. get_str (snd e) ''country_code'' = Inr (str_int n)"
      using enriched_country_code by blast
  qed
  have "distinct (map fst ?t1)" using keys t0(2) by simp
  from sort_table_spec [OF this cc] obtain out where
    out: "sort_table ?t1 = Inr out" "set out = set ?t1" "distinct (map fst out)"
         "sorted_wrt sort_before out"
    by blast
  have "main env = Inr (''phone_formats_e164.json'', out)"
    by (simp add: main_def t0(1) out(1))
  with t0 keys out show ?thesis by blast
qed

lemma sample_run:
  "main sample_env =
     Inr (''phone_formats_e164.json'', [(''CA'', ca_enriched), (''US'', us_record), (''GB'', gb_record)])"
  by code_simp

lemma offline_run:
  "main offline_env =
     Inr (''phone_formats_e164.json'', [(''CA'', ca_record), (''US'', us_record), (''GB'', gb_record)])"
  by code_simp

lemma output_entry:
  assumes run: "main env = Inr (path, out)" and mem: "(k, data) \<in> set out"
  shows "\<exists>n m. data = full_fields k n m \<or>
           (\<exists>a b c d rows row v1 v2 v3.
              fetched_rows (http_get env gc_url) = Some ((a, b, c, d), rows) \<and> row \<in> set rows \<and>
              row_names a b c d row k \<and> py_getitem row b = Inr v1 \<and>
              py_getitem row c = Inr v2 \<and> py_getitem row d = Inr v3 \<and>
              data = full_fields k n m @ gc_fields v1 v2 v3)"
proof -
  from run_shape [of env] obtain t0 out' where
    r: "harvested env = Inr t0" "distinct (map fst t0)"
       "\<forall>e\<in>set t0. \<exists>n m. snd e = full_fields (fst e) n m"
       "set out' = set (snd (enrich (http_get env gc_url) t0))"
       "main env = Inr (''phone_formats_e164.json'', out')"
    by blast
  have "out' = out" using run r(5) by simp
  then have "(k, data) \<in> set (snd (enrich (http_get env gc_url) t0))"
    using mem r(4) by simp
  from enriched_entry [OF r(2,3) this] show ?thesis by simp
qed

section \<open>The records of the output file\<close>

text \<open>
  C5: in every record of the final output, \<^verbatim>\<open>regex\<close> is exactly \<^verbatim>\<open>^\+\<close>, the
  \<^verbatim>\<open>country_code\<close>, \<^verbatim>\<open>\d{\<close>, the decimal digits of \<^verbatim>\<open>max_length\<close> and \<^verbatim>\<open>}$\<close>.
\<close>

theorem output_regex:
  assumes "main env = Inr (path, out)" and "(k, data) \<in> set out"
  shows "\<exists>cc n. dict_get data ''country_code'' = Inr (PStr cc) \<and>
           dict_get data ''max_length'' = Inr (PInt n) \<and>
           dict_get data ''regex'' =
             Inr (PStr (''^'' @ [CHR 0x5C] @ ''+'' @ cc @ [CHR 0x5C] @ ''d{'' @ str_int n @ ''}$''))"
  using output_entry [OF assms]
  by (auto simp: full_fields_def region_fields_def gc_fields_def dict_get_def regex_of_def
        backslash_def)

theorem output_regex_witness:
  "\<exists>cc n. dict_get gb_record ''country_code'' = Inr (PStr cc) \<and>
     dict_get gb_record ''max_length'' = Inr (PInt n) \<and>
     dict_get gb_record ''regex'' =
       Inr (PStr (''^'' @ [CHR 0x5C] @ ''+'' @ cc @ [CHR 0x5C] @ ''d{'' @ str_int n @ ''}$''))"
proof -
  have mem: "(''GB'', gb_record) \<in> set [(''CA'', ca_enriched), (''US'', us_record), (''GB'', gb_record)]"
    by simp
  from output_regex [OF sample_run mem] show ?thesis .
qed

text \<open>
  C6: in every record of the final output, \<^verbatim>\<open>total_max_digits\<close> is the length of the
  \<^verbatim>\<open>country_code\<close> string plus \<^verbatim>\<open>max_length\<close>.
\<close>

theorem output_total_max_digits:
  assumes "main env = Inr (path, out)" and "(k, data) \<in> set out"
  shows "\<exists>cc n. dict_get data ''country_code'' = Inr (PStr cc) \<and>
           dict_get data ''max_length'' = Inr (PInt n) \<and>
           dict_get data ''total_max_digits'' = Inr (PInt (int (length cc) + n))"
  using output_entry [OF assms]
  by (auto simp: full_fields_def region_fields_def gc_fields_def dict_get_def)

theorem output_total_max_digits_witness:
  "\<exists>cc n. dict_get gb_record ''country_code'' = Inr (PStr cc) \<and>
     dict_get gb_record ''max_length'' = Inr (PInt n) \<and>
     dict_get gb_record ''total_max_digits'' = Inr (PInt (int (length cc) + n))"
proof -
  have mem: "(''GB'', gb_record) \<in> set [(''CA'', ca_enriched), (''US'', us_record), (''GB'', gb_record)]"
    by simp
  from output_total_max_digits [OF sample_run mem] show ?thesis .
qed

text \<open>
  C2: every record of the final output has the base fields \<^verbatim>\<open>country_code\<close>,
  \<^verbatim>\<open>max_length\<close>, \<^verbatim>\<open>example_format\<close>, \<^verbatim>\<open>ISO\<close>, \<^verbatim>\<open>total_max_digits\<close> and \<^verbatim>\<open>regex\<close>, and
  it has one of \<^verbatim>\<open>GC_ID\<close>, \<^verbatim>\<open>GC_NM_AB_EN\<close>, \<^verbatim>\<open>GC_NM_AB_FR\<close> only if some record of the
  fetched dataset holds its ISO code in the ISO column.
\<close>

theorem output_fields:
  assumes "main env = Inr (path, out)" and "(k, data) \<in> set out"
  shows "has_field data ''country_code'' \<and> has_field data ''max_length'' \<and>
         has_field data ''example_format'' \<and> has_field data ''ISO'' \<and>
         has_field data ''total_max_digits'' \<and> has_field data ''regex'' \<and>
         (has_field data ''GC_ID'' \<or> has_field data ''GC_NM_AB_EN'' \<or> has_field data ''GC_NM_AB_FR''
            \<longrightarrow> (\<exists>a b c d rows row.
                   fetched_rows (http_get env gc_url) = Some ((a, b, c, d), rows) \<and>
                   row \<in> set rows \<and> row_names a b c d row k))"
proof -
  from output_entry [OF assms] obtain n m where
    "data = full_fields k n m \<or>
       (\<exists>a b c d rows row v1 v2 v3.
          fetched_rows (http_get env gc_url) = Some ((a, b, c, d), rows) \<and> row \<in> set rows \<and>
          row_names a b c d row k \<and> py_getitem row b = Inr v1 \<and>
          py_getitem row c = Inr v2 \<and> py_getitem row d = Inr v3 \<and>
          data = full_fields k n m @ gc_fields v1 v2 v3)"
    by blast
  then show ?thesis
  proof
    assume "data = full_fields k n m"
    then show ?thesis
      by (simp add: has_field_def full_fields_def region_fields_def)
  next
    assume "\<exists>a b c d rows row v1 v2 v3.
          fetched_rows (http_get env gc_url) = Some ((a, b, c, d), rows) \<and> row \<in> set rows \<and>
          row_names a b c d row k \<and> py_getitem row b = Inr v1 \<and>
          py_getitem row c = Inr v2 \<and> py_getitem row d = Inr v3 \<and>
          data = full_fields k n m @ gc_fields v1 v2 v3"
    then obtain a b c d rows row v1 v2 v3 where
      f: "fetched_rows (http_get env gc_url) = Some ((a, b, c, d), rows)" "row \<in> set rows"
         "row_names a b c d row k"
      and d: "data = full_fields k n m @ gc_fields v1 v2 v3"
      by blast
    have "has_field data ''country_code'' \<and> has_field data ''max_length'' \<and>
         has_field data ''example_format'' \<and> has_field data ''ISO'' \<and>
         has_field data ''total_max_digits'' \<and> has_field data ''regex''"
      using d by (simp add: has_field_def full_fields_def region_fields_def)
    with f show ?thesis by blast
  qed
qed

theorem output_fields_witness:
  "has_field ca_enriched ''country_code'' \<and> has_field ca_enriched ''max_length'' \<and>
   has_field ca_enriched ''example_format'' \<and> has_field ca_enriched ''ISO'' \<and>
   has_field ca_enriched ''total_max_digits'' \<and> has_field ca_enriched ''regex'' \<and>
   has_field ca_enriched ''GC_ID'' \<and>
   (\<exists>a b c d rows row.
      fetched_rows (http_get sample_env gc_url) = Some ((a, b, c, d), rows) \<and>
      row \<in> set rows \<and> row_names a b c d row ''CA'')"
proof -
  have mem: "(''CA'', ca_enriched) \<in> set [(''CA'', ca_enriched), (''US'', us_record), (''GB'', gb_record)]"
    by simp
  have gc: "has_field ca_enriched ''GC_ID''"
    by (simp add: has_field_def ca_enriched_def)
  from output_fields [OF sample_run mem] gc show ?thesis by simp
qed

section \<open>The order of the output file\<close>

text \<open>
  C1: after the sort, the entries of the output mapping, in the order of the file, are
  grouped by \<^verbatim>\<open>country_code\<close>, the groups ascending by the integer value of
  \<^verbatim>\<open>country_code\<close> and the ISO keys ascending inside a group; the table
  \<^verbatim>\<open>{US: 1, CA: 1, GB: 44}\<close> comes out in the order CA, US, GB. The entries are those of
  the enriched table, each once.
\<close>

theorem output_order:
  assumes "main env = Inr (path, out)"
  shows "sorted_wrt sort_before out \<and> distinct (map fst out) \<and>
         (\<exists>t. harvested env = Inr t \<and> set out = set (snd (enrich (http_get env gc_url) t))) \<and>
         sort_table scenario_table =
           Inr [(''CA'', [(''country_code'', PStr ''1''), (''max_length'', PInt 10)]),
                (''US'', [(''country_code'', PStr ''1''), (''max_length'', PInt 10)]),
                (''GB'', [(''country_code'', PStr ''44''), (''max_length'', PInt 10)])]"
proof -
  from run_shape [of env] obtain t0 out' where
    r: "harvested env = Inr t0"
       "set out' = set (snd (enrich (http_get env gc_url) t0))"
       "distinct (map fst out')" "sorted_wrt sort_before out'"
       "main env = Inr (''phone_formats_e164.json'', out')"
    by blast
  have same: "out' = out" using assms r(5) by simp
  have scenario: "sort_table scenario_table =
           Inr [(''CA'', [(''country_code'', PStr ''1''), (''max_length'', PInt 10)]),
                (''US'', [(''country_code'', PStr ''1''), (''max_length'', PInt 10)]),
                (''GB'', [(''country_code'', PStr ''44''), (''max_length'', PInt 10)])]"
    by code_simp
  from r same scenario show ?thesis by blast
qed

theorem output_order_witness:
  "sorted_wrt sort_before [(''CA'', ca_enriched), (''US'', us_record), (''GB'', gb_record)] \<and>
   distinct (map fst [(''CA'', ca_enriched), (''US'', us_record), (''GB'', gb_record)])"
  using output_order [OF sample_run] by blast

section \<open>A failed request\<close>

text \<open>
  C4: when the request of the enrichment raises a connection error, the mapping that is
  sorted and written is the harvested data as it was before the enrichment, no record
  with a field more or less, and the script still writes the file and ends normally.
\<close>

theorem connection_error_run:
  assumes "http_get env gc_url = Inl ConnectionError"
  shows "\<exists>t out. harvested env = Inr t \<and>
           enrich (http_get env gc_url) t = (Some ConnectionError, t) \<and>
           sort_table t = Inr out \<and> set out = set t \<and> map_of out = map_of t \<and>
           main env = Inr (''phone_formats_e164.json'', out)"
proof -
  have same: "\<And>t. enrich (http_get env gc_url) t = (Some ConnectionError, t)"
    using assms by (simp add: enrich_def fetch_gc_data_def)
  from run_shape [of env] obtain t0 out where
    r: "harvested env = Inr t0" "distinct (map fst t0)"
       "sort_table (snd (enrich (http_get env gc_url) t0)) = Inr out"
       "set out = set (snd (enrich (http_get env gc_url) t0))"
       "distinct (map fst out)"
       "main env = Inr (''phone_formats_e164.json'', out)"
    by blast
  have s: "sort_table t0 = Inr out" "set out = set t0"
    using r(3,4) by (simp_all add: same)
  have "map_of out = map_of t0"
    using r(2,5) s(2) by (simp add: map_of_inject_set)
  with r(1,6) s same show ?thesis by blast
qed

theorem connection_error_run_witness:
  "\<exists>t out. harvested offline_env = Inr t \<and>
     enrich (http_get offline_env gc_url) t = (Some ConnectionError, t) \<and>
     sort_table t = Inr out \<and> set out = set t \<and> map_of out = map_of t \<and>
     main offline_env = Inr (''phone_formats_e164.json'', out)"
proof -
  have "http_get offline_env gc_url = Inl ConnectionError"
    by (simp add: offline_env_def)
  from connection_error_run [OF this] show ?thesis .
qed

section \<open>The positions assumed for the columns\<close>

text \<open>
  C9: when the scan of the fetched fields does not find the ISO column by id, the merge
  runs with the positions 19 for the ISO code, 0 for \<^verbatim>\<open>GC_ID\<close>, 4 for the English name and
  5 for the French name, whatever the scan found for the other three columns. (With no
  records to merge nothing is assumed and nothing is merged.)
\<close>

theorem fallback_positions:
  assumes "fetch_gc_data got = Inr gc_data"
    and "find_indices gc_data = Inr idx"
    and "iso_alpha_2_index idx = None"
    and "py_get gc_data ''records'' (PList []) = Inr records"
  shows "enrich got t =
           (if py_truthy records
            then (case py_iter records of
                    Inl e \<Rightarrow> (Some e, t)
                  | Inr rows \<Rightarrow> merge_records 19 0 4 5 rows t)
            else (None, t))"
  using assms
  by (simp add: enrich_def resolve_indices_def fallback_indices_def merge_with_def)

theorem fallback_positions_witness:
  "enrich (Inr positional_response) [(''GB'', gb_record)] =
     merge_records 19 0 4 5 [positional_row] [(''GB'', gb_record)] \<and>
   merge_records 19 0 4 5 [positional_row] [(''GB'', gb_record)] =
     (None, [(''GB'', gb_record @ [(''GC_ID'', PStr ''1000826''),
                                   (''GC_NM_AB_EN'', PStr ''United Kingdom''),
                                   (''GC_NM_AB_FR'', PStr ''Royaume-Uni'')])])"
proof -
  have 1: "fetch_gc_data (Inr positional_response) = Inr positional_data"
    by (simp add: fetch_gc_data_def positional_response_def)
  have 2: "find_indices positional_data = Inr (no_indices\<lparr>gc_id_index := Some 1\<rparr>)"
    by (simp add: find_indices_def positional_data_def)
  have 3: "iso_alpha_2_index (no_indices\<lparr>gc_id_index := Some 1\<rparr>) = None"
    by (simp add: no_indices_def)
  have 4: "py_get positional_data ''records'' (PList []) = Inr (PList [positional_row])"
    by (simp add: positional_data_def)
  have 5: "merge_records 19 0 4 5 [positional_row] [(''GB'', gb_record)] =
     (None, [(''GB'', gb_record @ [(''GC_ID'', PStr ''1000826''),
                                   (''GC_NM_AB_EN'', PStr ''United Kingdom''),
                                   (''GC_NM_AB_FR'', PStr ''Royaume-Uni'')])])"
    by code_simp
  from fallback_positions [OF 1 2 3 4, of "[(''GB'', gb_record)]"] 5 show ?thesis
    by simp
qed

section \<open>The fields that the enrichment attaches\<close>

text \<open>
  C3, as amended: a fetched record whose ISO value is no harvested key creates no record;
  when the enrichment ends without a stage-level failure, a record of the final output
  (its key not empty) has \<^verbatim>\<open>GC_ID\<close>, \<^verbatim>\<open>GC_NM_AB_EN\<close> and \<^verbatim>\<open>GC_NM_AB_FR\<close> if and only if some
  fetched record, long enough for all four column positions, holds its ISO code in the ISO
  column; and in every run, a failed enrichment included, a record that has one of the
  three fields has all three, set from the columns of one such fetched record.
\<close>

theorem gc_fields_attached:
  assumes run: "main env = Inr (path, out)" and mem: "(k, data) \<in> set out"
    and harvest: "harvested env = Inr t0"
  shows "set (map fst out) = set (map fst t0) \<and>
         (fst (enrich (http_get env gc_url) t0) = None \<and> k \<noteq> [] \<longrightarrow>
            ((has_field data ''GC_ID'' \<and> has_field data ''GC_NM_AB_EN'' \<and>
              has_field data ''GC_NM_AB_FR'') \<longleftrightarrow>
             (\<exists>a b c d rows row.
                fetched_rows (http_get env gc_url) = Some ((a, b, c, d), rows) \<and>
                row \<in> set rows \<and> row_names a b c d row k))) \<and>
         (has_field data ''GC_ID'' \<or> has_field data ''GC_NM_AB_EN'' \<or> has_field data ''GC_NM_AB_FR''
            \<longrightarrow> (\<exists>a b c d rows row v1 v2 v3.
                   fetched_rows (http_get env gc_url) = Some ((a, b, c, d), rows) \<and>
                   row \<in> set rows \<and> row_names a b c d row k \<and>
                   py_getitem row b = Inr v1 \<and> py_getitem row c = Inr v2 \<and>
                   py_getitem row d = Inr v3 \<and>
                   dict_get data ''GC_ID'' = Inr v1 \<and> dict_get data ''GC_NM_AB_EN'' = Inr v2 \<and>
                   dict_get data ''GC_NM_AB_FR'' = Inr v3))"
proof -
  from run_shape [of env] harvest obtain out' where
    r: "distinct (map fst t0)"
       "\<forall>e\<in>set t0. \<exists>n m. snd e = full_fields (fst e) n m"
       "map fst (snd (enrich (http_get env gc_url) t0)) = map fst t0"
       "set out' = set (snd (enrich (http_get env gc_url) t0))"
       "main env = Inr (''phone_formats_e164.json'', out')"
    by auto
  have same: "out' = out" using run r(5) by simp
  have in_t1: "(k, data) \<in> set (snd (enrich (http_get env gc_url) t0))"
    using mem r(4) same by simp
  have "set (map fst out) = fst ` set (snd (enrich (http_get env gc_url) t0))"
    using r(4) same by simp
  also have "\<dots> = set (map fst (snd (enrich (http_get env gc_url) t0)))" by simp
  finally have keys: "set (map fst out) = set (map fst t0)"
    by (simp only: r(3))
  have shape: "\<exists>n m. data = full_fields k n m \<or>
           (\<exists>a b c d rows row v1 v2 v3.
              fetched_rows (http_get env gc_url) = Some ((a, b, c, d), rows) \<and> row \<in> set rows \<and>
              row_names a b c d row k \<and> py_getitem row b = Inr v1 \<and>
              py_getitem row c = Inr v2 \<and> py_getitem row d = Inr v3 \<and>
              data = full_fields k n m @ gc_fields v1 v2 v3)"
    by (rule output_entry [OF run mem])
  have plain: "\<And>n m. data = full_fields k n m \<Longrightarrow>
      \<not> has_field data ''GC_ID'' \<and> \<not> has_field data ''GC_NM_AB_EN'' \<and>
      \<not> has_field data ''GC_NM_AB_FR''"
    using full_fields_gc_free by (simp add: gc_free_def)
  have with_gc: "\<And>n m v1 v2 v3. data = full_fields k n m @ gc_fields v1 v2 v3 \<Longrightarrow>
      has_field data ''GC_ID'' \<and> has_field data ''GC_NM_AB_EN'' \<and> has_field data ''GC_NM_AB_FR'' \<and>
      dict_get data ''GC_ID'' = Inr v1 \<and> dict_get data ''GC_NM_AB_EN'' = Inr v2 \<and>
      dict_get data ''GC_NM_AB_FR'' = Inr v3"
    by (simp add: has_field_def gc_fields_def full_fields_def region_fields_def dict_get_def)
  have any: "has_field data ''GC_ID'' \<or> has_field data ''GC_NM_AB_EN'' \<or> has_field data ''GC_NM_AB_FR''
            \<longrightarrow> (\<exists>a b c d rows row v1 v2 v3.
                   fetched_rows (http_get env gc_url) = Some ((a, b, c, d), rows) \<and>
                   row \<in> set rows \<and> row_names a b c d row k \<and>
                   py_getitem row b = Inr v1 \<and> py_getitem row c = Inr v2 \<and>
                   py_getitem row d = Inr v3 \<and>
                   dict_get data ''GC_ID'' = Inr v1 \<and> dict_get data ''GC_NM_AB_EN'' = Inr v2 \<and>
                   dict_get data ''GC_NM_AB_FR'' = Inr v3)"
  proof
    assume has: "has_field data ''GC_ID'' \<or> has_field data ''GC_NM_AB_EN'' \<or>
      has_field data ''GC_NM_AB_FR''"
    from shape obtain n m where
      nm: "data = full_fields k n m \<or>
           (\<exists>a b c d rows row v1 v2 v3.
              fetched_rows (http_get env gc_url) = Some ((a, b, c, d), rows) \<and> row \<in> set rows \<and>
              row_names a b c d row k \<and> py_getitem row b = Inr v1 \<and>
              py_getitem row c = Inr v2 \<and> py_getitem row d = Inr v3 \<and>
              data = full_fields k n m @ gc_fields v1 v2 v3)"
      by blast
    have "data \<noteq> full_fields k n m"
      using plain [of n m] has by blast
    with nm obtain a b c d rows row v1 v2 v3 where
      f: "fetched_rows (http_get env gc_url) = Some ((a, b, c, d), rows)" "row \<in> set rows"
         "row_names a b c d row k" "py_getitem row b = Inr v1"
         "py_getitem row c = Inr v2" "py_getitem row d = Inr v3"
      and d: "data = full_fields k n m @ gc_fields v1 v2 v3"
      by blast
    from with_gc [OF d] have
      g: "dict_get data ''GC_ID'' = Inr v1" "dict_get data ''GC_NM_AB_EN'' = Inr v2"
         "dict_get data ''GC_NM_AB_FR'' = Inr v3"
      by simp_all
    show "\<exists>a b c d rows row v1 v2 v3.
                   fetched_rows (http_get env gc_url) = Some ((a, b, c, d), rows) \<and>
                   row \<in> set rows \<and> row_names a b c d row k \<and>
                   py_getitem row b = Inr v1 \<and> py_getitem row c = Inr v2 \<and>
                   py_getitem row d = Inr v3 \<and>
                   dict_get data ''GC_ID'' = Inr v1 \<and> dict_get data ''GC_NM_AB_EN'' = Inr v2 \<and>
                   dict_get data ''GC_NM_AB_FR'' = Inr v3"
      using f g by (intro exI conjI)
  qed
  have iff: "fst (enrich (http_get env gc_url) t0) = None \<and> k \<noteq> [] \<longrightarrow>
            ((has_field data ''GC_ID'' \<and> has_field data ''GC_NM_AB_EN'' \<and>
              has_field data ''GC_NM_AB_FR'') \<longleftrightarrow>
             (\<exists>a b c d rows row.
                fetched_rows (http_get env gc_url) = Some ((a, b, c, d), rows) \<and>
                row \<in> set rows \<and> row_names a b c d row k))"
  proof (intro impI iffI)
    assume "has_field data ''GC_ID'' \<and> has_field data ''GC_NM_AB_EN'' \<and>
              has_field data ''GC_NM_AB_FR''"
    with any obtain a b c d rows row v1 v2 v3 where
      "fetched_rows (http_get env gc_url) = Some ((a, b, c, d), rows)"
      "row \<in> set rows" "row_names a b c d row k"
      by auto
    then show "\<exists>a b c d rows row.
                fetched_rows (http_get env gc_url) = Some ((a, b, c, d), rows) \<and>
                row \<in> set rows \<and> row_names a b c d row k"
      by (intro exI conjI)
  next
    assume ok: "fst (enrich (http_get env gc_url) t0) = None \<and> k \<noteq> []"
    assume "\<exists>a b c d rows row.
                fetched_rows (http_get env gc_url) = Some ((a, b, c, d), rows) \<and>
                row \<in> set rows \<and> row_names a b c d row k"
    then obtain a b c d rows row where
      f: "fetched_rows (http_get env gc_url) = Some ((a, b, c, d), rows)"
         "row \<in> set rows" "row_names a b c d row k"
      by blast
    from enriched_complete [OF r(1,2) in_t1 _ f(1,2)] ok f(3)
    obtain n m v1 v2 v3 where "data = full_fields k n m @ gc_fields v1 v2 v3"
      by auto
    from with_gc [OF this]
    show "has_field data ''GC_ID'' \<and> has_field data ''GC_NM_AB_EN'' \<and>
              has_field data ''GC_NM_AB_FR''"
      by blast
  qed
  from keys iff any show ?thesis by (intro conjI)
qed

theorem gc_fields_attached_witness:
  "set (map fst [(''CA'', ca_enriched), (''US'', us_record), (''GB'', gb_record)]) =
     set (map fst [(''US'', us_record), (''GB'', gb_record), (''CA'', ca_record)]) \<and>
   has_field ca_enriched ''GC_ID'' \<and> has_field ca_enriched ''GC_NM_AB_EN'' \<and>
   has_field ca_enriched ''GC_NM_AB_FR'' \<and>
   (\<exists>a b c d rows row v1 v2 v3.
      fetched_rows (http_get sample_env gc_url) = Some ((a, b, c, d), rows) \<and>
      row \<in> set rows \<and> row_names a b c d row ''CA'' \<and>
      py_getitem row b = Inr v1 \<and> py_getitem row c = Inr v2 \<and> py_getitem row d = Inr v3 \<and>
      dict_get ca_enriched ''GC_ID'' = Inr v1 \<and> dict_get ca_enriched ''GC_NM_AB_EN'' = Inr v2 \<and>
      dict_get ca_enriched ''GC_NM_AB_FR'' = Inr v3)"
proof -
  have mem: "(''CA'', ca_enriched) \<in> set [(''CA'', ca_enriched), (''US'', us_record), (''GB'', gb_record)]"
    by simp
  have harvest: "harvested sample_env = Inr [(''US'', us_record), (''GB'', gb_record), (''CA'', ca_record)]"
    by code_simp
  have gc: "has_field ca_enriched ''GC_ID''" "has_field ca_enriched ''GC_NM_AB_EN''"
    "has_field ca_enriched ''GC_NM_AB_FR''"
    by (simp_all add: has_field_def ca_enriched_def)
  note inst = gc_fields_attached [OF sample_run mem harvest]
  from inst have keys: "set (map fst [(''CA'', ca_enriched), (''US'', us_record), (''GB'', gb_record)]) =
     set (map fst [(''US'', us_record), (''GB'', gb_record), (''CA'', ca_record)])"
    by (rule conjunct1)
  from inst have "has_field ca_enriched ''GC_ID'' \<or> has_field ca_enriched ''GC_NM_AB_EN'' \<or>
      has_field ca_enriched ''GC_NM_AB_FR'' \<longrightarrow>
      (\<exists>a b c d rows row v1 v2 v3.
      fetched_rows (http_get sample_env gc_url) = Some ((a, b, c, d), rows) \<and>
      row \<in> set rows \<and> row_names a b c d row ''CA'' \<and>
      py_getitem row b = Inr v1 \<and> py_getitem row c = Inr v2 \<and> py_getitem row d = Inr v3 \<and>
      dict_get ca_enriched ''GC_ID'' = Inr v1 \<and> dict_get ca_enriched ''GC_NM_AB_EN'' = Inr v2 \<and>
      dict_get ca_enriched ''GC_NM_AB_FR'' = Inr v3)"
    by (rule conjunct2 [THEN conjunct2])
  with gc(1) have rows: "\<exists>a b c d rows row v1 v2 v3.
      fetched_rows (http_get sample_env gc_url) = Some ((a, b, c, d), rows) \<and>
      row \<in> set rows \<and> row_names a b c d row ''CA'' \<and>
      py_getitem row b = Inr v1 \<and> py_getitem row c = Inr v2 \<and> py_getitem row d = Inr v3 \<and>
      dict_get ca_enriched ''GC_ID'' = Inr v1 \<and> dict_get ca_enriched ''GC_NM_AB_EN'' = Inr v2 \<and>
      dict_get ca_enriched ''GC_NM_AB_FR'' = Inr v3"
    by (simp only: simp_thms)
  from keys gc rows show ?thesis by (intro conjI)
qed

text \<open>
  The claim as written, with its "only if the enrichment completed", fails: the table is
  changed in place, so the fields attached before an exception stay. Here the second
  fetched record is a number, the stage ends in \<^verbatim>\<open>TypeError\<close>, and CA keeps its three
  fields.
\<close>

theorem gc_fields_attached_counterexample:
  "harvested broken_env = Inr [(''CA'', ca_record)] \<and>
   fst (enrich (http_get broken_env gc_url) [(''CA'', ca_record)]) = Some TypeError \<and>
   main broken_env = Inr (''phone_formats_e164.json'', [(''CA'', ca_enriched)]) \<and>
   has_field ca_enriched ''GC_ID'' \<and> has_field ca_enriched ''GC_NM_AB_EN'' \<and>
   has_field ca_enriched ''GC_NM_AB_FR''"
  by code_simp

end
